theory Spec2Isabelle
  imports Complex_Main "HOL-Library.Log_Nat" "HOL-Library.Signed_Division"
begin

section \<open>Strings: the two library calls of generateVariants\<close>

text \<open>
  \<^verbatim>\<open>strings.Split(s, ".")\<close> cuts \<open>s\<close> at every separator byte and returns the pieces in
  order; a string without separator (the empty one too) is returned as the single piece.
  The source only ever splits on the one-byte separator \<^verbatim>\<open>"."\<close>, so the separator is a
  \<open>char\<close> here.
\<close>

fun Split :: "string \<Rightarrow> char \<Rightarrow> string list" where
  "Split [] sep = [[]]"
| "Split (c # cs) sep =
     (if c = sep then [] # Split cs sep
      else (case Split cs sep of
              [] \<Rightarrow> [[c]]
            | p # ps \<Rightarrow> (c # p) # ps))"

text \<open>\<^verbatim>\<open>strings.Join(elems, sep)\<close>: the elements with \<open>sep\<close> between neighbours.\<close>

fun Join :: "string list \<Rightarrow> string \<Rightarrow> string" where
  "Join [] sep = []"
| "Join [x] sep = x"
| "Join (x # y # ys) sep = x @ sep @ Join (y # ys) sep"

section \<open>generateVariants\<close>

text \<open>
  \<^verbatim>\<open>
  func generateVariants(domain string) []string {
      var variants []string
      parts := strings.Split(domain, ".")
      for i := 0; i < len(parts)-1; i++ {
          variants = append(variants, strings.Join(parts[i:], "."))
      }
      return variants
  }
  \<close>
  The loop counter and the bound \<open>len(parts)-1\<close> are Go \<open>int\<close>s; the comparison is made
  on integers so that a bound of \<open>0\<close> or below ends the loop at once.
\<close>

function generateVariants_loop :: "string list \<Rightarrow> nat \<Rightarrow> string list \<Rightarrow> string list" where
  "generateVariants_loop parts i variants =
     (if int i < int (length parts) - 1
      then generateVariants_loop parts (Suc i) (variants @ [Join (drop i parts) ''.''])
      else variants)"
  by pat_completeness auto
termination
  by (relation "measure (\<lambda>(parts, i, variants). length parts - i)") auto

declare generateVariants_loop.simps [simp del]

definition generateVariants :: "string \<Rightarrow> string list" where
  "generateVariants domain = generateVariants_loop (Split domain (CHR ''.'')) 0 []"

text \<open>
  The variant sequence in the words of the specification: split the input on \<open>.\<close> into
  parts \<open>p[0..n-1]\<close>; for \<open>i\<close> from \<open>0\<close> to \<open>n-2\<close> inclusive emit \<open>join(p[i:], ".")\<close>.
\<close>

definition spec_variants :: "string \<Rightarrow> string list" where
  "spec_variants domain =
     (let p = Split domain (CHR ''.''); n = length p
      in map (\<lambda>i. Join (drop i p) ''.'') [0 ..< n - 1])"

section \<open>The data model\<close>

text \<open>
  A Go \<^verbatim>\<open>error\<close> value is represented by its message. The one error the client creates
  itself is \<^verbatim>\<open>fmt.Errorf("already listening for updates")\<close>.
\<close>

datatype error = Err string

definition AlreadyListening :: error where
  "AlreadyListening = Err ''already listening for updates''"

text \<open>
  The run-time panics the client's code can raise, and the outcome of a call: it panics or
  it returns.
\<close>

datatype panic =
    AssignNilMap       \<comment> \<open>assignment to entry in nil map\<close>
  | CloseNilChan       \<comment> \<open>close of nil channel\<close>
  | CloseClosedChan    \<comment> \<open>close of closed channel\<close>
  | SendClosedChan     \<comment> \<open>send on closed channel\<close>
  | NilDereference     \<comment> \<open>invalid memory address or nil pointer dereference\<close>

datatype 'a outcome = Panic panic | Ret 'a

text \<open>
  A \<^verbatim>\<open>chan struct{}\<close>: its elements carry no data, so the buffer is the number of pending
  elements. Channels live in a store, addressed by a number: the subscriber keeps the
  channel \<^verbatim>\<open>UpdateChannel\<close> handed out while the client goes on using or replacing it.
\<close>

record chan =
  pending :: nat
  capacity :: nat
  closed :: bool

text \<open>\<^verbatim>\<open>type DomainUpdate struct { Add bool; Domains []string }\<close>\<close>

record DomainUpdate =
  Add :: bool
  Domains :: "string list"

text \<open>
  The cache \<^verbatim>\<open>domains map[string]empty\<close> is a set of strings; a nil map (the state after
  \<^verbatim>\<open>Close\<close>) is \<open>None\<close>. Reading a nil map finds nothing.
\<close>

type_synonym domain_map = "string set option"

definition lookup :: "domain_map \<Rightarrow> string \<Rightarrow> bool" where
  "lookup dm d = (case dm of None \<Rightarrow> False | Some S \<Rightarrow> d \<in> S)"

definition members :: "domain_map \<Rightarrow> string set" where
  "members dm = (case dm of None \<Rightarrow> {} | Some S \<Rightarrow> S)"

text \<open>
  A \<^verbatim>\<open>time.Time\<close> is an instant, counted in nanoseconds from the Unix epoch; a
  \<^verbatim>\<open>time.Duration\<close> is a number of nanoseconds.
\<close>

type_synonym Time = int
type_synonym Duration = int

text \<open>
  \<^verbatim>\<open>
  type Client struct {
      r           RawClient
      domains     map[string]empty
      lastUpdated time.Time
      m           sync.Mutex
      streaming   bool
      cancelFunc  context.CancelFunc
      updateChan  chan struct{}
  }
  \<close>
  The transport \<^verbatim>\<open>r\<close> is the environment: its answers are arguments of the operations.
  The mutex \<^verbatim>\<open>m\<close> is the flag \<open>m_locked\<close>. A cancel function is the number of the context
  it cancels, a channel is its address in the store; \<open>None\<close> is nil.
\<close>

record Client =
  domains :: domain_map
  lastUpdated :: Time
  m_locked :: bool
  streaming :: bool
  cancelFunc :: "nat option"
  updateChan :: "nat option"

text \<open>
  The transport calls a client makes, and the world an operation runs in: the client, the
  store of channels with its next free address, the contexts cancelled so far, and the log
  of transport calls, each with the state of the mutex at the time of the call.
\<close>

datatype call = CallAll | CallRecent int | CallFeed

record World = Client +
  chans :: "nat \<Rightarrow> chan"
  next_chan :: nat
  cancelled :: "nat list"
  netlog :: "(call \<times> bool) list"

definition Lock :: "World \<Rightarrow> World" where
  "Lock w = w\<lparr>m_locked := True\<rparr>"

definition Unlock :: "World \<Rightarrow> World" where
  "Unlock w = w\<lparr>m_locked := False\<rparr>"

definition transport :: "call \<Rightarrow> World \<Rightarrow> World" where
  "transport c w = w\<lparr>netlog := netlog w @ [(c, m_locked w)]\<rparr>"

text \<open>
  \<^verbatim>\<open>New\<close> returns a client with an empty, non-nil cache; every other field has its zero
  value. The zero \<^verbatim>\<open>time.Time\<close> is January 1 of year 1, 00:00:00 UTC, which is
  62135596800 seconds before the Unix epoch. No channel is allocated, no context is
  cancelled and no transport call is made yet.
\<close>

definition zero_Time :: Time where
  "zero_Time = - 62135596800000000000"

definition New :: World where
  "New = \<lparr>domains = Some {}, lastUpdated = zero_Time, m_locked = False, streaming = False,
          cancelFunc = None, updateChan = None,
          chans = (\<lambda>a. \<lparr>pending = 0, capacity = 0, closed = False\<rparr>), next_chan = 0,
          cancelled = [], netlog = []\<rparr>"

section \<open>The query surface\<close>

text \<open>
  \<^verbatim>\<open>Check\<close> is the exact membership test \<^verbatim>\<open>_, found := c.domains[domain]\<close>, made between
  \<^verbatim>\<open>Lock\<close> and the deferred \<^verbatim>\<open>Unlock\<close>; it returns the answer only.
\<close>

definition Check :: "World \<Rightarrow> string \<Rightarrow> bool" where
  "Check w domain = lookup (domains (Lock w)) domain"

text \<open>
  \<^verbatim>\<open>
  func (c *Client) FuzzyCheck(domain string) bool {
      for _, part := range generateVariants(domain) {
          if c.Check(part) { return true }
      }
      return false
  }
  \<close>
  The loop is modelled with the list of the parts it has handed to \<^verbatim>\<open>Check\<close> so far, so that
  what was tested, and in which order, can be stated.
\<close>

fun FuzzyCheck_loop :: "World \<Rightarrow> string list \<Rightarrow> string list \<Rightarrow> string list \<times> bool" where
  "FuzzyCheck_loop w [] tested = (tested, False)"
| "FuzzyCheck_loop w (part # rest) tested =
     (if Check w part then (tested @ [part], True)
      else FuzzyCheck_loop w rest (tested @ [part]))"

definition FuzzyCheck_tested :: "World \<Rightarrow> string \<Rightarrow> string list" where
  "FuzzyCheck_tested w domain = fst (FuzzyCheck_loop w (generateVariants domain) [])"

definition FuzzyCheck :: "World \<Rightarrow> string \<Rightarrow> bool" where
  "FuzzyCheck w domain = snd (FuzzyCheck_loop w (generateVariants domain) [])"

text \<open>
  Testing a sequence up to and including its first element that passes: the elements a
  short-circuiting evaluation visits.
\<close>

fun upto_first :: "('a \<Rightarrow> bool) \<Rightarrow> 'a list \<Rightarrow> 'a list" where
  "upto_first P [] = []"
| "upto_first P (x # xs) = (if P x then [x] else x # upto_first P xs)"

text \<open>\<^verbatim>\<open>Size\<close> is \<^verbatim>\<open>len(c.domains)\<close>.\<close>

definition Size :: "World \<Rightarrow> nat" where
  "Size w = card (members (domains w))"

section \<open>Time\<close>

text \<open>
  \<^verbatim>\<open>Update\<close> computes its look-back window with \<^verbatim>\<open>time.Time.Add\<close>, \<^verbatim>\<open>time.Since\<close>,
  \<^verbatim>\<open>time.Duration.Seconds\<close> and \<^verbatim>\<open>math.Ceil\<close>. A \<^verbatim>\<open>Duration\<close> is an \<open>int64\<close>: the difference
  of two instants saturates at the largest and the smallest \<^verbatim>\<open>Duration\<close>.
\<close>

definition Second :: Duration where
  "Second = 1000000000"

definition Minute :: Duration where
  "Minute = 60 * Second"

definition maxDuration :: Duration where
  "maxDuration = 2 ^ 63 - 1"

definition minDuration :: Duration where
  "minDuration = - (2 ^ 63)"

definition Time_Add :: "Time \<Rightarrow> Duration \<Rightarrow> Time" where
  "Time_Add t d = t + d"

definition Time_Sub :: "Time \<Rightarrow> Time \<Rightarrow> Duration" where
  "Time_Sub t u =
     (if maxDuration < t - u then maxDuration
      else if t - u < minDuration then minDuration
      else t - u)"

text \<open>\<^verbatim>\<open>time.Since(t)\<close> is \<^verbatim>\<open>time.Now().Sub(t)\<close>; \<open>now\<close> is the clock reading it makes.\<close>

definition Since :: "Time \<Rightarrow> Time \<Rightarrow> Duration" where
  "Since now t = Time_Sub now t"

text \<open>
  A \<open>float64\<close> is a rational number here. \<open>float64 x\<close> is the binary64 number nearest to
  \<open>x\<close>, ties to the even significand: with \<open>2 ^ e \<le> |x| < 2 ^ (e + 1)\<close>, \<open>x\<close> is rounded
  to a multiple of \<open>2 ^ (e - 52)\<close>. Overflow and subnormal numbers are not modelled: the
  values that occur are seconds between \<open>10 ^ -9\<close> and \<open>10 ^ 10\<close> in magnitude.
\<close>

definition binade :: "rat \<Rightarrow> int" where
  "binade x =
     (let (a, b) = quotient_of \<bar>x\<bar>;
          k = bitlen a - bitlen b
      in if 2 powi k \<le> \<bar>x\<bar> then k else k - 1)"

definition round_half_even :: "rat \<Rightarrow> int" where
  "round_half_even y =
     (let n = \<lfloor>y\<rfloor>; r = y - of_int n
      in if r < 1 / 2 then n
         else if 1 / 2 < r then n + 1
         else if even n then n else n + 1)"

definition float64 :: "rat \<Rightarrow> rat" where
  "float64 x =
     (if x = 0 then 0
      else (let e = binade x - 52
            in of_int (round_half_even (x / 2 powi e)) * 2 powi e))"

text \<open>
  \<^verbatim>\<open>
  func (d Duration) Seconds() float64 {
      sec := d / Second
      nsec := d % Second
      return float64(sec) + float64(nsec)/1e9
  }
  \<close>
  Go's integer division truncates towards zero and the remainder has the sign of the
  dividend (\<open>sdiv\<close>, \<open>smod\<close>). Each conversion and each arithmetic operation rounds.
\<close>

definition Seconds :: "Duration \<Rightarrow> rat" where
  "Seconds d =
     (let sec = d sdiv Second; nsec = d smod Second
      in float64 (float64 (of_int sec) + float64 (float64 (of_int nsec) / 1000000000)))"

text \<open>
  \<^verbatim>\<open>
  func (c RawClient) After(after time.Time) ([]DomainUpdate, error) {
      return c.Recent(int(math.Ceil(time.Since(after).Seconds())))
  }
  \<close>
  \<open>After_seconds\<close> is the argument \<^verbatim>\<open>After\<close> passes to \<^verbatim>\<open>Recent\<close>. \<^verbatim>\<open>math.Ceil\<close> is exact and
  its result, at most \<open>2 ^ 63 / 10 ^ 9 + 1\<close> in magnitude, converts to a 64-bit \<open>int\<close>
  unchanged.
\<close>

definition After_seconds :: "Time \<Rightarrow> Time \<Rightarrow> int" where
  "After_seconds now after = \<lceil>Seconds (Since now after)\<rceil>"

section \<open>Notification, merge and synchronisation\<close>

text \<open>
  \<^verbatim>\<open>
  func (c *Client) sendUpdate() {
      if c.updateChan == nil { return }
      select {
      case c.updateChan <- struct{}{}:
      default:
      }
  }
  \<close>
  A send on a closed channel panics; a send on a channel with room is made; otherwise the
  \<^verbatim>\<open>default\<close> branch is taken and nothing is sent.
\<close>

definition sendUpdate :: "World \<Rightarrow> World outcome" where
  "sendUpdate w =
     (case updateChan w of
        None \<Rightarrow> Ret w
      | Some a \<Rightarrow>
          (let ch = chans w a in
           if closed ch then Panic SendClosedChan
           else if pending ch < capacity ch
           then Ret (w\<lparr>chans := (chans w)(a := ch\<lparr>pending := Suc (pending ch)\<rparr>)\<rparr>)
           else Ret w))"

text \<open>\<^verbatim>\<open>close(ch)\<close> and \<^verbatim>\<open>make(chan struct{}, n)\<close> on the store.\<close>

definition close_chan :: "nat option \<Rightarrow> World \<Rightarrow> World outcome" where
  "close_chan ch w =
     (case ch of
        None \<Rightarrow> Panic CloseNilChan
      | Some a \<Rightarrow>
          if closed (chans w a) then Panic CloseClosedChan
          else Ret (w\<lparr>chans := (chans w)(a := (chans w a)\<lparr>closed := True\<rparr>)\<rparr>))"

definition make_chan :: "nat \<Rightarrow> World \<Rightarrow> nat \<times> World" where
  "make_chan n w =
     (next_chan w,
      w\<lparr>chans := (chans w)(next_chan w := \<lparr>pending = 0, capacity = n, closed = False\<rparr>),
        next_chan := Suc (next_chan w)\<rparr>)"

text \<open>
  \<^verbatim>\<open>
  func (c *Client) UpdateChannel() chan struct{} {
      if c.updateChan != nil { close(c.updateChan) }
      c.updateChan = make(chan struct{}, 2)
      return c.updateChan
  }
  \<close>
\<close>

definition UpdateChannel :: "World \<Rightarrow> (nat \<times> World) outcome" where
  "UpdateChannel w =
     (case (if updateChan w \<noteq> None then close_chan (updateChan w) w else Ret w) of
        Panic p \<Rightarrow> Panic p
      | Ret w1 \<Rightarrow>
          (let (a, w2) = make_chan 2 w1;
               w3 = w2\<lparr>updateChan := Some a\<rparr>
           in Ret (a, w3)))"

text \<open>
  \<^verbatim>\<open>
  func (c *Client) applyMod(mod DomainUpdate) {
      for _, domain := range mod.Domains {
          if mod.Add { c.domains[domain] = empty{} } else { delete(c.domains, domain) }
      }
  }
  \<close>
  Writing to a nil map panics; deleting from one does nothing.
\<close>

fun applyMod_loop :: "bool \<Rightarrow> string list \<Rightarrow> domain_map \<Rightarrow> domain_map outcome" where
  "applyMod_loop add [] dm = Ret dm"
| "applyMod_loop add (domain # rest) dm =
     (if add
      then (case dm of
              None \<Rightarrow> Panic AssignNilMap
            | Some S \<Rightarrow> applyMod_loop add rest (Some (insert domain S)))
      else (case dm of
              None \<Rightarrow> applyMod_loop add rest None
            | Some S \<Rightarrow> applyMod_loop add rest (Some (S - {domain}))))"

definition applyMod :: "DomainUpdate \<Rightarrow> World \<Rightarrow> World outcome" where
  "applyMod upd w =
     (case applyMod_loop (Add upd) (Domains upd) (domains w) of
        Panic p \<Rightarrow> Panic p
      | Ret dm \<Rightarrow> Ret (w\<lparr>domains := dm\<rparr>))"

text \<open>The loop \<^verbatim>\<open>for _, mod := range mods { c.applyMod(mod) }\<close> of \<^verbatim>\<open>Update\<close>.\<close>

fun applyMods :: "DomainUpdate list \<Rightarrow> World \<Rightarrow> World outcome" where
  "applyMods [] w = Ret w"
| "applyMods (upd # rest) w =
     (case applyMod upd w of
        Panic p \<Rightarrow> Panic p
      | Ret w1 \<Rightarrow> applyMods rest w1)"

text \<open>
  \<^verbatim>\<open>
  func (c *Client) FullSync() error {
      ds, err := c.r.All()
      if err != nil { return err }
      c.m.Lock()
      defer c.m.Unlock()
      c.lastUpdated = time.Now()
      dMap := map[string]empty{}
      for _, d := range ds { dMap[d] = empty{} }
      c.domains = dMap
      c.sendUpdate()
      return nil
  }
  \<close>
  \<open>all_result\<close> is what \<^verbatim>\<open>c.r.All()\<close> returns, \<open>now\<close> what \<^verbatim>\<open>time.Now()\<close> returns.
\<close>

definition FullSync ::
  "string list \<times> error option \<Rightarrow> Time \<Rightarrow> World \<Rightarrow> (World \<times> error option) outcome" where
  "FullSync all_result now w =
     (let w0 = transport CallAll w;
          (ds, err) = all_result
      in case err of
           Some e \<Rightarrow> Ret (w0, Some e)
         | None \<Rightarrow>
             (let w1 = Lock w0;
                  w2 = w1\<lparr>lastUpdated := now\<rparr>;
                  dMap = fold insert ds {};
                  w3 = w2\<lparr>domains := Some dMap\<rparr>
              in case sendUpdate w3 of
                   Panic p \<Rightarrow> Panic p
                 | Ret w4 \<Rightarrow> Ret (Unlock w4, None)))"

text \<open>
  \<^verbatim>\<open>
  func (c *Client) Update() error {
      c.m.Lock()
      defer c.m.Unlock()
      mods, err := c.r.After(c.lastUpdated.Add(-(time.Minute * 1)))
      if err != nil { return err }
      c.lastUpdated = time.Now()
      for _, mod := range mods { c.applyMod(mod) }
      if len(mods) > 0 { c.sendUpdate() }
      return nil
  }
  \<close>
  \<open>recent\<close> is the transport's answer to \<^verbatim>\<open>Recent(seconds)\<close>; \<open>now1\<close> is the clock reading
  \<^verbatim>\<open>time.Since\<close> makes inside \<^verbatim>\<open>After\<close>, \<open>now2\<close> the one \<^verbatim>\<open>time.Now()\<close> makes after the
  answer has arrived.
\<close>

definition Update ::
  "(int \<Rightarrow> DomainUpdate list \<times> error option) \<Rightarrow> Time \<Rightarrow> Time \<Rightarrow> World
     \<Rightarrow> (World \<times> error option) outcome" where
  "Update recent now1 now2 w =
     (let w1 = Lock w;
          seconds = After_seconds now1 (Time_Add (lastUpdated w1) (- (Minute * 1)));
          w2 = transport (CallRecent seconds) w1;
          (mods, err) = recent seconds
      in case err of
           Some e \<Rightarrow> Ret (Unlock w2, Some e)
         | None \<Rightarrow>
             (let w3 = w2\<lparr>lastUpdated := now2\<rparr>
              in case applyMods mods w3 of
                   Panic p \<Rightarrow> Panic p
                 | Ret w4 \<Rightarrow>
                     (case (if 0 < length mods then sendUpdate w4 else Ret w4) of
                        Panic p \<Rightarrow> Panic p
                      | Ret w5 \<Rightarrow> Ret (Unlock w5, None))))"

text \<open>
  The merge in the words of the specification: each batch, in the order received, inserts
  its domains when \<open>add\<close> is true and removes them otherwise.
\<close>

definition apply_batch :: "DomainUpdate \<Rightarrow> string set \<Rightarrow> string set" where
  "apply_batch upd S = (if Add upd then S \<union> set (Domains upd) else S - set (Domains upd))"

definition merge_batches :: "DomainUpdate list \<Rightarrow> string set \<Rightarrow> string set" where
  "merge_batches mods S = fold apply_batch mods S"

text \<open>
  \<^verbatim>\<open>
  func (c *Client) applyLiveUpdates(mod DomainUpdate) {
      c.m.Lock()
      defer c.m.Unlock()
      c.lastUpdated = time.Now()
      c.applyMod(mod)
      c.sendUpdate()
  }
  \<close>
\<close>

definition applyLiveUpdates :: "DomainUpdate \<Rightarrow> Time \<Rightarrow> World \<Rightarrow> World outcome" where
  "applyLiveUpdates upd now w =
     (let w1 = Lock w;
          w2 = w1\<lparr>lastUpdated := now\<rparr>
      in case applyMod upd w2 of
           Panic p \<Rightarrow> Panic p
         | Ret w3 \<Rightarrow>
             (case sendUpdate w3 of
                Panic p \<Rightarrow> Panic p
              | Ret w4 \<Rightarrow> Ret (Unlock w4)))"

section \<open>The live feed\<close>

text \<open>
  \<^verbatim>\<open>
  func (c *Client) listenForUpdates(ctx context.Context, modChan chan DomainUpdate) error {
      checkStreaming := func() error {
          c.m.Lock()
          defer c.m.Unlock()
          if c.streaming { return fmt.Errorf("already listening for updates") }
          c.streaming = true
          ctx, c.cancelFunc = context.WithCancel(ctx)
          return nil
      }
      if err := checkStreaming(); err != nil { return err }
      defer func() {
          c.m.Lock()
          defer c.m.Unlock()
          c.streaming = false
          if c.cancelFunc != nil { c.cancelFunc() }
          c.cancelFunc = nil
      }()
      return c.r.Feed(ctx, modChan)
  }
  \<close>
  \<open>ctx\<close> is the number of the context \<^verbatim>\<open>context.WithCancel\<close> derives; calling the cancel
  function appends it to the cancelled contexts.
\<close>

definition checkStreaming :: "nat \<Rightarrow> World \<Rightarrow> World \<times> error option" where
  "checkStreaming ctx w =
     (let w1 = Lock w
      in if streaming w1 then (Unlock w1, Some AlreadyListening)
         else (let w2 = w1\<lparr>streaming := True\<rparr>;
                   w3 = w2\<lparr>cancelFunc := Some ctx\<rparr>
               in (Unlock w3, None)))"

definition listen_deferred :: "World \<Rightarrow> World" where
  "listen_deferred w =
     (let w1 = Lock w;
          w2 = w1\<lparr>streaming := False\<rparr>;
          w3 = (case cancelFunc w2 of
                  None \<Rightarrow> w2
                | Some cf \<Rightarrow> w2\<lparr>cancelled := cancelled w2 @ [cf]\<rparr>);
          w4 = w3\<lparr>cancelFunc := None\<rparr>
      in Unlock w4)"

text \<open>
  \<^verbatim>\<open>Feed\<close> blocks until the stream ends. \<open>during\<close> is what happens to the world in the
  meantime (the updates the feed delivers are applied by another goroutine), \<open>feed_result\<close>
  is what \<^verbatim>\<open>Feed\<close> returns in the end. The check comes before the \<^verbatim>\<open>defer\<close> statement: when
  it fails, the deferred function is not run.
\<close>

definition listenForUpdates ::
  "nat \<Rightarrow> (World \<Rightarrow> World outcome) \<Rightarrow> error option \<Rightarrow> World \<Rightarrow> (World \<times> error option) outcome" where
  "listenForUpdates ctx during feed_result w =
     (case checkStreaming ctx w of
        (w1, Some err) \<Rightarrow> Ret (w1, Some err)
      | (w1, None) \<Rightarrow>
          (case during (transport CallFeed w1) of
             Panic p \<Rightarrow> Panic p
           | Ret w2 \<Rightarrow> Ret (listen_deferred w2, feed_result)))"

text \<open>
  \<^verbatim>\<open>ListenForUpdates\<close> starts a goroutine that hands every record arriving on its queue to
  \<^verbatim>\<open>applyLiveUpdates\<close>, then calls \<^verbatim>\<open>listenForUpdates\<close> with that queue. \<open>records\<close> are the
  records the goroutine applies, in order of arrival, each with the clock reading
  \<^verbatim>\<open>applyLiveUpdates\<close> makes.
\<close>

fun apply_records :: "(DomainUpdate \<times> Time) list \<Rightarrow> World \<Rightarrow> World outcome" where
  "apply_records [] w = Ret w"
| "apply_records ((upd, now) # rest) w =
     (case applyLiveUpdates upd now w of
        Panic p \<Rightarrow> Panic p
      | Ret w1 \<Rightarrow> apply_records rest w1)"

definition ListenForUpdates ::
  "nat \<Rightarrow> (DomainUpdate \<times> Time) list \<Rightarrow> error option \<Rightarrow> World \<Rightarrow> (World \<times> error option) outcome" where
  "ListenForUpdates ctx records feed_result w =
     listenForUpdates ctx (apply_records records) feed_result w"

text \<open>
  \<^verbatim>\<open>
  func (c *Client) Close() error {
      c.m.Lock()
      defer c.m.Unlock()
      if c.cancelFunc != nil { c.cancelFunc() }
      c.domains = nil
      close(c.updateChan)
      c.updateChan = nil
      return nil
  }
  \<close>
\<close>

definition Close :: "World \<Rightarrow> (World \<times> error option) outcome" where
  "Close w =
     (let w1 = Lock w;
          w2 = (case cancelFunc w1 of
                  None \<Rightarrow> w1
                | Some cf \<Rightarrow> w1\<lparr>cancelled := cancelled w1 @ [cf]\<rparr>);
          w3 = w2\<lparr>domains := None\<rparr>
      in case close_chan (updateChan w3) w3 of
           Panic p \<Rightarrow> Panic p
         | Ret w4 \<Rightarrow> Ret (Unlock (w4\<lparr>updateChan := None\<rparr>), None))"

text \<open>
  The notification channel the client holds, if any, is one that \<^verbatim>\<open>UpdateChannel\<close> made and
  nobody closed: it is allocated, open and of capacity 2. \<^verbatim>\<open>UpdateChannel\<close> closes the
  channel it replaces and \<^verbatim>\<open>Close\<close> sets the field to nil after closing, so the client's
  own operations keep this; only a subscriber closing the channel it was handed breaks it.
\<close>

definition notifier_ok :: "World \<Rightarrow> bool" where
  "notifier_ok w =
     (case updateChan w of
        None \<Rightarrow> True
      | Some a \<Rightarrow> a < next_chan w \<and> \<not> closed (chans w a) \<and> capacity (chans w a) = 2)"

text \<open>A client whose subscriber has not read the two notifications already queued.\<close>

definition w_full :: World where
  "w_full = New\<lparr>updateChan := Some 0, next_chan := 1,
                chans := (\<lambda>a. \<lparr>pending = 2, capacity = 2, closed = False\<rparr>)\<rparr>"

section \<open>Persistence\<close>







section \<open>Sequences of operations\<close>





section \<open>AutoSync\<close>

text \<open>
  \<^verbatim>\<open>
  func AutoSync(ctx context.Context, c *Client, realtime bool,
                recentInterval, fullSyncInterval time.Duration) error {
      var stream chan error
      modChan := make(chan DomainUpdate, 2)
      if realtime {
          go func() {
              stream <- c.listenForUpdates(ctx, modChan)
              close(stream)
          }()
      }
      errSync := c.FullSync()
      if errSync != nil { return errSync }
      var recentTicker *time.Ticker
      var fullSyncTicker *time.Ticker
      if recentInterval > 0 { recentTicker = time.NewTicker(recentInterval) }
      if fullSyncInterval > 0 { fullSyncTicker = time.NewTicker(fullSyncInterval) }
      defer recentTicker.Stop()
      defer fullSyncTicker.Stop()
      for {
          select {
          case mod, ok := <-modChan:
              if !ok { return nil }
              c.applyLiveUpdates(mod)
          case <-recentTicker.C:
              err := c.Update()
              if err != nil { return err }
          case <-fullSyncTicker.C:
              err := c.FullSync()
              if err != nil { return err }
          case err := <-stream:
              if err != nil { return err }
          case <-ctx.Done():
              return nil
          }
      }
  }
  \<close>
  The loop reacts to what happens around it, one event at a time: a record arrives on
  \<^verbatim>\<open>modChan\<close>, a ticker fires (the event carries the transport's answer and the clock
  readings of the call it triggers), the goroutine of the live feed begins or finishes
  \<^verbatim>\<open>listenForUpdates\<close>, or the context is cancelled. Nothing closes \<^verbatim>\<open>modChan\<close>, so a
  receive from it always has \<^verbatim>\<open>ok\<close> true.
\<close>

datatype event =
    ModArrives DomainUpdate Time
  | RecentTick "int \<Rightarrow> DomainUpdate list \<times> error option" Time Time
  | FullSyncTick "string list \<times> error option" Time
  | FeedStarts nat
  | FeedEnds "error option"
  | CtxDone

text \<open>
  How a call of \<^verbatim>\<open>AutoSync\<close> ends: it returns, it panics, or it is still waiting in the
  \<^verbatim>\<open>select\<close> when the events are used up.
\<close>

datatype exit = Returns "error option" | Panics panic | Waits

text \<open>
  A \<^verbatim>\<open>chan error\<close> is \<open>None\<close> when nil and otherwise the values sent and not yet received.
  A send on a nil channel blocks forever: the value is never delivered and the sender
  never gets to its next statement. A receive from a nil channel is never ready.
\<close>

type_synonym error_chan = "error option list option"

definition chan_send :: "error_chan \<Rightarrow> error option \<Rightarrow> error_chan" where
  "chan_send ch v = (case ch of None \<Rightarrow> None | Some buf \<Rightarrow> Some (buf @ [v]))"

definition chan_recv :: "error_chan \<Rightarrow> (error option \<times> error_chan) option" where
  "chan_recv ch =
     (case ch of
        None \<Rightarrow> None
      | Some [] \<Rightarrow> None
      | Some (v # buf) \<Rightarrow> Some (v, Some buf))"

text \<open>
  One round of the loop per event. On entering the \<^verbatim>\<open>select\<close> the channel operands
  \<^verbatim>\<open>recentTicker.C\<close> and \<^verbatim>\<open>fullSyncTicker.C\<close> are evaluated: with a nil ticker that is a nil
  pointer dereference. When the goroutine of the live feed has a result, it sends it on
  \<open>stream\<close>, and the loop takes the case \<^verbatim>\<open>err := <-stream\<close> if that receive is ready.
  Events of the live feed do not occur when \<open>realtime\<close> is false.
\<close>

fun AutoSync_loop ::
  "bool \<Rightarrow> error_chan \<Rightarrow> Duration option \<Rightarrow> Duration option \<Rightarrow> event list \<Rightarrow> World
     \<Rightarrow> World \<times> exit" where
  "AutoSync_loop realtime stream recentTicker fullSyncTicker [] w =
     (if recentTicker = None \<or> fullSyncTicker = None then (w, Panics NilDereference)
      else (w, Waits))"
| "AutoSync_loop realtime stream recentTicker fullSyncTicker (ev # rest) w =
     (if recentTicker = None \<or> fullSyncTicker = None then (w, Panics NilDereference)
      else
        (case ev of
           ModArrives upd now \<Rightarrow>
             (case applyLiveUpdates upd now w of
                Panic p \<Rightarrow> (w, Panics p)
              | Ret w1 \<Rightarrow> AutoSync_loop realtime stream recentTicker fullSyncTicker rest w1)
         | RecentTick recent now1 now2 \<Rightarrow>
             (case Update recent now1 now2 w of
                Panic p \<Rightarrow> (w, Panics p)
              | Ret (w1, Some err) \<Rightarrow> (w1, Returns (Some err))
              | Ret (w1, None) \<Rightarrow> AutoSync_loop realtime stream recentTicker fullSyncTicker rest w1)
         | FullSyncTick all_result now \<Rightarrow>
             (case FullSync all_result now w of
                Panic p \<Rightarrow> (w, Panics p)
              | Ret (w1, Some err) \<Rightarrow> (w1, Returns (Some err))
              | Ret (w1, None) \<Rightarrow> AutoSync_loop realtime stream recentTicker fullSyncTicker rest w1)
         | FeedStarts ctx \<Rightarrow>
             (if \<not> realtime
              then AutoSync_loop realtime stream recentTicker fullSyncTicker rest w
              else
                (case checkStreaming ctx w of
                   (w1, None) \<Rightarrow>
                     AutoSync_loop realtime stream recentTicker fullSyncTicker rest
                       (transport CallFeed w1)
                 | (w1, Some e) \<Rightarrow>
                     (case chan_recv (chan_send stream (Some e)) of
                        None \<Rightarrow> AutoSync_loop realtime stream recentTicker fullSyncTicker rest w1
                      | Some (None, stream1) \<Rightarrow>
                          AutoSync_loop realtime stream1 recentTicker fullSyncTicker rest w1
                      | Some (Some err, stream1) \<Rightarrow> (w1, Returns (Some err)))))
         | FeedEnds feed_result \<Rightarrow>
             (if \<not> realtime
              then AutoSync_loop realtime stream recentTicker fullSyncTicker rest w
              else
                (let w1 = listen_deferred w
                 in case chan_recv (chan_send stream feed_result) of
                      None \<Rightarrow> AutoSync_loop realtime stream recentTicker fullSyncTicker rest w1
                    | Some (None, stream1) \<Rightarrow>
                        AutoSync_loop realtime stream1 recentTicker fullSyncTicker rest w1
                    | Some (Some err, stream1) \<Rightarrow> (w1, Returns (Some err))))
         | CtxDone \<Rightarrow> (w, Returns None)))"

text \<open>
  \<open>first_all\<close> and \<open>now\<close> are the transport's answer and the clock reading of the
  \<^verbatim>\<open>FullSync\<close> made at the start. \<open>stream\<close> is declared and never made: it is nil.
\<close>

definition AutoSync ::
  "bool \<Rightarrow> Duration \<Rightarrow> Duration \<Rightarrow> string list \<times> error option \<Rightarrow> Time \<Rightarrow> event list
     \<Rightarrow> World \<Rightarrow> World \<times> exit" where
  "AutoSync realtime recentInterval fullSyncInterval first_all now events w =
     (let stream = None
      in case FullSync first_all now w of
           Panic p \<Rightarrow> (w, Panics p)
         | Ret (w1, Some errSync) \<Rightarrow> (w1, Returns (Some errSync))
         | Ret (w1, None) \<Rightarrow>
             (let recentTicker = (if 0 < recentInterval then Some recentInterval else None);
                  fullSyncTicker = (if 0 < fullSyncInterval then Some fullSyncInterval else None)
              in AutoSync_loop realtime stream recentTicker fullSyncTicker events w1))"

text \<open>
  Transports and clients used as concrete inputs: a transport with nothing to report, a
  client synchronised at second 1000 that knows two domains, and a transport that reports
  one added and one deleted domain.
\<close>

definition recent_nothing :: "int \<Rightarrow> DomainUpdate list \<times> error option" where
  "recent_nothing seconds = ([], None)"

definition w_synced :: World where
  "w_synced = New\<lparr>domains := Some {''a.example'', ''b.example''}, lastUpdated := 1000000000000\<rparr>"

definition recent_two :: "int \<Rightarrow> DomainUpdate list \<times> error option" where
  "recent_two seconds =
     ([\<lparr>Add = True, Domains = [''c.example'']\<rparr>, \<lparr>Add = False, Domains = [''a.example'']\<rparr>], None)"







section \<open>Variant generation\<close>

lemma generateVariants_loop_eq:
  "generateVariants_loop parts i variants =
     variants @ map (\<lambda>j. Join (drop j parts) ''.'') [i ..< length parts - 1]"
proof (induction parts i variants rule: generateVariants_loop.induct)
  case (1 parts i variants)
  show ?case
  proof (cases "int i < int (length parts) - 1")
    case True
    then have lt: "i < length parts - 1" by linarith
    have "generateVariants_loop parts i variants =
            generateVariants_loop parts (Suc i) (variants @ [Join (drop i parts) ''.''])"
      using True by (subst generateVariants_loop.simps) simp
    also have "\<dots> = (variants @ [Join (drop i parts) ''.'']) @
                 map (\<lambda>j. Join (drop j parts) ''.'') [Suc i ..< length parts - 1]"
      using "1.IH" [OF True] .
    also have "\<dots> = variants @ map (\<lambda>j. Join (drop j parts) ''.'') [i ..< length parts - 1]"
      using lt by (simp add: upt_conv_Cons)
    finally show ?thesis .
  next
    case False
    then have "\<not> i < length parts - 1" by linarith
    then show ?thesis
      using False by (subst generateVariants_loop.simps) simp
  qed
qed

lemma generateVariants_spec: "generateVariants domain = spec_variants domain"
  by (simp add: generateVariants_def spec_variants_def generateVariants_loop_eq Let_def)

lemma FuzzyCheck_loop_eq:
  "FuzzyCheck_loop w parts tested =
     (tested @ upto_first (Check w) parts, \<exists>p \<in> set parts. Check w p)"
  by (induction parts arbitrary: tested) auto

lemma Split_nonempty: "Split s sep \<noteq> []"
  by (induction s) (auto split: list.splits)

lemma Split_no_sep: "sep \<notin> set s \<Longrightarrow> Split s sep = [s]"
  by (induction s) auto

lemma generateVariants_no_dot:
  "CHR ''.'' \<notin> set domain \<Longrightarrow> generateVariants domain = []"
  by (simp add: generateVariants_spec spec_variants_def Split_no_sep)

lemma generateVariants_examples:
  "generateVariants ''example.com'' = [''example.com'']"
  "generateVariants ''foo.bar.example.com'' =
     [''foo.bar.example.com'', ''bar.example.com'', ''example.com'']"
  "generateVariants ''foo'' = []"
  "generateVariants '''' = []"
  "generateVariants ''foo.bar..example.com'' =
     [''foo.bar..example.com'', ''bar..example.com'', ''.example.com'', ''example.com'']"
  "generateVariants ''foo.example.com/'' = [''foo.example.com/'', ''example.com/'']"
  by (simp_all add: generateVariants_spec spec_variants_def upt_conv_Cons)

text \<open>
  Claim C1. For every input string and every cache, \<^verbatim>\<open>generateVariants\<close> returns the sequence
  of the documented suffix-dropping algorithm (\<open>join(p[i:], ".")\<close> for \<open>i\<close> from \<open>0\<close> to
  \<open>n-2\<close> over the parts of the input split on \<open>.\<close>); \<^verbatim>\<open>FuzzyCheck\<close> hands to \<^verbatim>\<open>Check\<close>
  exactly that sequence, in order, up to and including its first member of the cache, and
  returns whether there is such a member; and the six literal examples of the
  specification evaluate as documented.
\<close>

theorem C1_FuzzyCheck_variants:
  "generateVariants d = spec_variants d
   \<and> FuzzyCheck_tested w d = upto_first (Check w) (spec_variants d)
   \<and> FuzzyCheck w d = list_ex (Check w) (spec_variants d)
   \<and> generateVariants ''example.com'' = [''example.com'']
   \<and> generateVariants ''foo.bar.example.com'' =
        [''foo.bar.example.com'', ''bar.example.com'', ''example.com'']
   \<and> generateVariants ''foo'' = []
   \<and> generateVariants '''' = []
   \<and> generateVariants ''foo.bar..example.com'' =
        [''foo.bar..example.com'', ''bar..example.com'', ''.example.com'', ''example.com'']
   \<and> generateVariants ''foo.example.com/'' = [''foo.example.com/'', ''example.com/'']"
proof -
  have tested: "FuzzyCheck_tested w d = upto_first (Check w) (spec_variants d)"
    by (simp add: FuzzyCheck_tested_def FuzzyCheck_loop_eq generateVariants_spec)
  have res: "FuzzyCheck w d = list_ex (Check w) (spec_variants d)"
    by (simp add: FuzzyCheck_def FuzzyCheck_loop_eq generateVariants_spec list_ex_iff)
  show ?thesis
    using generateVariants_spec [of d] tested res generateVariants_examples
    by blast
qed

text \<open>
  Claim C10. For every cache and every input string that contains no \<open>.\<close> (the empty
  string too), \<^verbatim>\<open>FuzzyCheck\<close> tests nothing and returns false, whatever \<^verbatim>\<open>Check\<close> says of
  that string.
\<close>

theorem C10_FuzzyCheck_no_dot:
  "CHR ''.'' \<notin> set d \<Longrightarrow> \<not> FuzzyCheck w d \<and> FuzzyCheck_tested w d = []"
  by (simp add: FuzzyCheck_def FuzzyCheck_tested_def generateVariants_no_dot)

theorem C10_FuzzyCheck_no_dot_witness:
  "CHR ''.'' \<notin> set ''foo''
   \<and> Check (New\<lparr>domains := Some {''foo''}\<rparr>) ''foo''
   \<and> \<not> FuzzyCheck (New\<lparr>domains := Some {''foo''}\<rparr>) ''foo''
   \<and> FuzzyCheck_tested (New\<lparr>domains := Some {''foo''}\<rparr>) ''foo'' = []
   \<and> Check (New\<lparr>domains := Some {''''}\<rparr>) ''''
   \<and> \<not> FuzzyCheck (New\<lparr>domains := Some {''''}\<rparr>) ''''"
  using C10_FuzzyCheck_no_dot [of "''foo''" "New\<lparr>domains := Some {''foo''}\<rparr>"]
    C10_FuzzyCheck_no_dot [of "''''" "New\<lparr>domains := Some {''''}\<rparr>"]
  by (simp add: Check_def lookup_def Lock_def)

section \<open>Notification\<close>

lemma fold_insert_set: "fold insert ds S = set ds \<union> S"
  by (induction ds arbitrary: S) auto

lemma sendUpdate_ok:
  "notifier_ok w \<Longrightarrow> \<exists>w'. sendUpdate w = Ret w' \<and> domains w' = domains w \<and> lastUpdated w' = lastUpdated w
      \<and> streaming w' = streaming w \<and> cancelFunc w' = cancelFunc w \<and> updateChan w' = updateChan w
      \<and> m_locked w' = m_locked w \<and> netlog w' = netlog w \<and> cancelled w' = cancelled w \<and> next_chan w' = next_chan w"
  by (auto simp: notifier_ok_def sendUpdate_def Let_def split: option.splits)

lemma sendUpdate_full:
  "updateChan w = Some a \<Longrightarrow> \<not> closed (chans w a) \<Longrightarrow> capacity (chans w a) \<le> pending (chans w a)
   \<Longrightarrow> sendUpdate w = Ret w"
  by (simp add: sendUpdate_def Let_def)

lemma sendUpdate_room:
  "updateChan w = Some a \<Longrightarrow> \<not> closed (chans w a) \<Longrightarrow> pending (chans w a) < capacity (chans w a)
   \<Longrightarrow> sendUpdate w = Ret (w\<lparr>chans := (chans w)(a := (chans w a)\<lparr>pending := Suc (pending (chans w a))\<rparr>)\<rparr>)"
  by (simp add: sendUpdate_def Let_def)

lemma UpdateChannel_replace:
  "updateChan w = Some a \<Longrightarrow> \<not> closed (chans w a) \<Longrightarrow>
   UpdateChannel w =
     Ret (next_chan w,
          w\<lparr>chans := (chans w)(a := (chans w a)\<lparr>closed := True\<rparr>,
                               next_chan w := \<lparr>pending = 0, capacity = 2, closed = False\<rparr>),
            next_chan := Suc (next_chan w), updateChan := Some (next_chan w)\<rparr>)"
  by (simp add: UpdateChannel_def close_chan_def make_chan_def)

lemma UpdateChannel_first:
  "updateChan w = None \<Longrightarrow>
   UpdateChannel w =
     Ret (next_chan w,
          w\<lparr>chans := (chans w)(next_chan w := \<lparr>pending = 0, capacity = 2, closed = False\<rparr>),
            next_chan := Suc (next_chan w), updateChan := Some (next_chan w)\<rparr>)"
  by (simp add: UpdateChannel_def close_chan_def make_chan_def)

text \<open>
  The client's own operations keep the notification channel well formed: a new client
  has none, and \<^verbatim>\<open>sendUpdate\<close>, \<^verbatim>\<open>UpdateChannel\<close>, \<^verbatim>\<open>FullSync\<close> and \<^verbatim>\<open>Close\<close> preserve
  the property.
\<close>

lemma notifier_ok_New: "notifier_ok New"
  by (simp add: notifier_ok_def New_def)

lemma notifier_ok_sendUpdate:
  "notifier_ok w \<Longrightarrow> sendUpdate w = Ret w1 \<Longrightarrow> notifier_ok w1"
  by (auto simp add: notifier_ok_def sendUpdate_def Let_def split: option.splits if_splits)

lemma notifier_ok_UpdateChannel:
  "notifier_ok w \<Longrightarrow> UpdateChannel w = Ret (a, w1) \<Longrightarrow> notifier_ok w1"
  by (auto simp add: notifier_ok_def UpdateChannel_def close_chan_def make_chan_def
      split: option.splits if_splits)

lemma notifier_ok_FullSync:
  "notifier_ok w \<Longrightarrow> FullSync all_result now w = Ret (w1, err) \<Longrightarrow> notifier_ok w1"
  by (cases all_result)
    (auto simp add: notifier_ok_def FullSync_def sendUpdate_def Let_def transport_def Lock_def
      Unlock_def split: option.splits if_splits)

lemma notifier_ok_Close:
  "Close w = Ret (w1, err) \<Longrightarrow> notifier_ok w1"
  by (auto simp add: notifier_ok_def Close_def close_chan_def Let_def Lock_def Unlock_def
      split: option.splits if_splits outcome.splits)

text \<open>
  Claim C8. While the client holds an open notification channel of capacity 2:
  \<^verbatim>\<open>sendUpdate\<close> queues one notification when fewer than 2 are pending; when 2 are pending
  it returns at once with the world unchanged (the notification is dropped, nothing
  blocks, nothing fails), and a mutating operation such as a successful \<^verbatim>\<open>FullSync\<close> still
  completes without error and leaves the queue as it was. \<^verbatim>\<open>UpdateChannel\<close> closes the
  channel issued before, if any, and hands back a new, empty, open channel of capacity 2 at
  a different address, which becomes the client's channel.
\<close>

theorem C8_notify:
  "notifier_ok w \<Longrightarrow>
   (\<forall>a. updateChan w = Some a \<longrightarrow>
      (pending (chans w a) < 2 \<longrightarrow>
         sendUpdate w =
           Ret (w\<lparr>chans := (chans w)(a := (chans w a)\<lparr>pending := Suc (pending (chans w a))\<rparr>)\<rparr>))
      \<and> (2 \<le> pending (chans w a) \<longrightarrow>
           sendUpdate w = Ret w
           \<and> (\<exists>w'. FullSync (ds, None) now w = Ret (w', None)
                  \<and> domains w' = Some (set ds) \<and> chans w' = chans w)))
   \<and> (\<exists>b w'. UpdateChannel w = Ret (b, w')
          \<and> updateChan w' = Some b
          \<and> chans w' b = \<lparr>pending = 0, capacity = 2, closed = False\<rparr>
          \<and> notifier_ok w'
          \<and> (\<forall>a. updateChan w = Some a \<longrightarrow> b \<noteq> a \<and> closed (chans w' a)))"
proof (cases "updateChan w")
  case None
  assume "notifier_ok w"
  show ?thesis
    using None UpdateChannel_first [OF None]
    by (simp add: notifier_ok_def)
next
  case (Some a)
  assume ok: "notifier_ok w"
  then have a: "a < next_chan w" "\<not> closed (chans w a)" "capacity (chans w a) = 2"
    using Some by (simp_all add: notifier_ok_def)
  have room: "pending (chans w a) < 2 \<Longrightarrow>
      sendUpdate w =
        Ret (w\<lparr>chans := (chans w)(a := (chans w a)\<lparr>pending := Suc (pending (chans w a))\<rparr>)\<rparr>)"
    using sendUpdate_room [OF Some a(2)] a(3) by simp
  have full: "2 \<le> pending (chans w a) \<Longrightarrow> sendUpdate w = Ret w"
    using sendUpdate_full [OF Some a(2)] a(3) by simp
  have sync: "\<exists>w'. FullSync (ds, None) now w = Ret (w', None)
                  \<and> domains w' = Some (set ds) \<and> chans w' = chans w"
    if "2 \<le> pending (chans w a)"
  proof -
    let ?w3 = "(Lock (transport CallAll w))\<lparr>lastUpdated := now, domains := Some (set ds)\<rparr>"
    have "sendUpdate ?w3 = Ret ?w3"
      using Some a that
      by (intro sendUpdate_full [of _ a]) (simp_all add: Lock_def transport_def)
    then have "FullSync (ds, None) now w = Ret (Unlock ?w3, None)"
      by (simp add: FullSync_def Let_def fold_insert_set)
    then show ?thesis
      by (simp add: Unlock_def Lock_def transport_def)
  qed
  have sub: "\<exists>b w'. UpdateChannel w = Ret (b, w')
          \<and> updateChan w' = Some b
          \<and> chans w' b = \<lparr>pending = 0, capacity = 2, closed = False\<rparr>
          \<and> notifier_ok w'
          \<and> (\<forall>a. updateChan w = Some a \<longrightarrow> b \<noteq> a \<and> closed (chans w' a))"
    using UpdateChannel_replace [OF Some a(2)] Some a(1)
    by (simp add: notifier_ok_def)
  show ?thesis
    using Some room full sync sub by simp
qed


theorem C8_notify_witness:
  "notifier_ok w_full \<and> updateChan w_full = Some 0 \<and> pending (chans w_full 0) = 2
   \<and> sendUpdate w_full = Ret w_full
   \<and> (\<exists>w'. FullSync ([''b''], None) 7 w_full = Ret (w', None)
          \<and> domains w' = Some {''b''} \<and> chans w' = chans w_full)
   \<and> (\<exists>w'. UpdateChannel w_full = Ret (1, w') \<and> updateChan w' = Some 1
          \<and> chans w' 1 = \<lparr>pending = 0, capacity = 2, closed = False\<rparr>
          \<and> closed (chans w' 0))"
  using C8_notify [of w_full "[''b'']" 7]
  by (auto simp add: notifier_ok_def w_full_def New_def UpdateChannel_def close_chan_def make_chan_def)

section \<open>FullSync\<close>

text \<open>
  Claim C2. From every state whose notification channel, if any, is open: when the
  transport's list-all call succeeds, \<^verbatim>\<open>FullSync\<close> returns no error, the cache is exactly
  the set of the returned domains (whatever it held before) and \<open>lastUpdated\<close> is the
  current time; from every state, when the call fails, \<^verbatim>\<open>FullSync\<close> returns that error and
  the cache and \<open>lastUpdated\<close> are as before.
\<close>

theorem C2_FullSync:
  "(notifier_ok w \<longrightarrow>
     (\<exists>w'. FullSync (ds, None) now w = Ret (w', None)
         \<and> domains w' = Some (set ds) \<and> members (domains w') = set ds
         \<and> lastUpdated w' = now))
   \<and> (\<exists>w'. FullSync (ds, Some e) now w = Ret (w', Some e)
         \<and> domains w' = domains w \<and> lastUpdated w' = lastUpdated w)"
proof -
  let ?w3 = "(Lock (transport CallAll w))\<lparr>lastUpdated := now, domains := Some (set ds)\<rparr>"
  have succ: "\<exists>w'. FullSync (ds, None) now w = Ret (w', None)
         \<and> domains w' = Some (set ds) \<and> members (domains w') = set ds
         \<and> lastUpdated w' = now" if ok: "notifier_ok w"
  proof -
    have "notifier_ok ?w3"
      using ok by (simp add: notifier_ok_def Lock_def transport_def split: option.splits)
    from sendUpdate_ok [OF this] obtain w4 where
      w4: "sendUpdate ?w3 = Ret w4" "domains w4 = Some (set ds)" "lastUpdated w4 = now"
      by auto
    have "FullSync (ds, None) now w = Ret (Unlock w4, None)"
      using w4(1) by (simp add: FullSync_def Let_def fold_insert_set)
    then show ?thesis
      using w4 by (simp add: Unlock_def members_def)
  qed
  have "FullSync (ds, Some e) now w = Ret (transport CallAll w, Some e)"
    by (simp add: FullSync_def Let_def)
  then show ?thesis
    using succ by (simp add: transport_def)
qed

theorem C2_FullSync_witness:
  "notifier_ok (New\<lparr>domains := Some {''a'', ''b''}\<rparr>)
   \<and> (\<exists>w'. FullSync ([''b'', ''c''], None) 5 (New\<lparr>domains := Some {''a'', ''b''}\<rparr>)
              = Ret (w', None)
         \<and> domains w' = Some {''b'', ''c''} \<and> lastUpdated w' = 5)
   \<and> (\<exists>w'. FullSync ([''b'', ''c''], Some (Err ''down'')) 5
                (New\<lparr>domains := Some {''a'', ''b''}\<rparr>)
              = Ret (w', Some (Err ''down''))
         \<and> domains w' = Some {''a'', ''b''} \<and> lastUpdated w' = zero_Time)"
  using C2_FullSync [of "New\<lparr>domains := Some {''a'', ''b''}\<rparr>" "[''b'', ''c'']" 5 "Err ''down''"]
  by (auto simp add: notifier_ok_def New_def)

section \<open>Single flight\<close>

lemma checkStreaming_busy:
  "streaming w \<Longrightarrow> checkStreaming ctx w = (w\<lparr>m_locked := False\<rparr>, Some AlreadyListening)"
  by (simp add: checkStreaming_def Lock_def Unlock_def)

text \<open>
  Claim C4. While a live-feed session is active (the \<open>streaming\<close> flag is set), a further
  call of \<^verbatim>\<open>ListenForUpdates\<close>, or of \<^verbatim>\<open>listenForUpdates\<close>, returns the error
  \<open>already listening for updates\<close> and changes nothing: the cache, \<open>lastUpdated\<close>, the
  \<open>streaming\<close> flag, the session's cancel function, the cancelled contexts, the notification
  channels and the log of transport calls are as before, and the mutex is free again.
\<close>

theorem C4_single_flight:
  "streaming w \<Longrightarrow>
   ListenForUpdates ctx records feed_result w = Ret (w\<lparr>m_locked := False\<rparr>, Some AlreadyListening)
   \<and> listenForUpdates ctx during feed_result w = Ret (w\<lparr>m_locked := False\<rparr>, Some AlreadyListening)
   \<and> AlreadyListening = Err ''already listening for updates''
   \<and> domains (w\<lparr>m_locked := False\<rparr>) = domains w
   \<and> lastUpdated (w\<lparr>m_locked := False\<rparr>) = lastUpdated w
   \<and> streaming (w\<lparr>m_locked := False\<rparr>)
   \<and> cancelFunc (w\<lparr>m_locked := False\<rparr>) = cancelFunc w
   \<and> cancelled (w\<lparr>m_locked := False\<rparr>) = cancelled w"
  by (simp add: ListenForUpdates_def listenForUpdates_def checkStreaming_busy AlreadyListening_def)

text \<open>
  The witness: a first session is started on a new client and is still running; a second
  call with another context fails and the world is the one the first call left.
\<close>

theorem C4_single_flight_witness:
  "checkStreaming 1 New = (New\<lparr>streaming := True, cancelFunc := Some 1\<rparr>, None)
   \<and> streaming (New\<lparr>streaming := True, cancelFunc := Some 1\<rparr>)
   \<and> ListenForUpdates 2 [(\<lparr>Add = True, Domains = [''x.example'']\<rparr>, 9)] None
         (New\<lparr>streaming := True, cancelFunc := Some 1\<rparr>)
       = Ret (New\<lparr>streaming := True, cancelFunc := Some 1\<rparr>, Some AlreadyListening)"
  using C4_single_flight [of "New\<lparr>streaming := True, cancelFunc := Some 1\<rparr>" 2
      "[(\<lparr>Add = True, Domains = [''x.example'']\<rparr>, 9)]" None]
  by (simp add: checkStreaming_def Lock_def Unlock_def New_def)

section \<open>Rounding to binary64 and the seconds of a duration\<close>

lemma int_bitlen_powi:
  assumes "0 < a"
  shows "(2::rat) powi (bitlen a - 1) \<le> of_int a" "of_int a < (2::rat) powi (bitlen a)"
proof -
  from bitlen_bounds [OF assms] have b: "2 ^ nat (bitlen a - 1) \<le> a" "a < 2 ^ nat (bitlen a)"
    by auto
  have pos: "1 \<le> bitlen a" using assms by (auto simp: bitlen_alt_def)
  have "(2::rat) powi (bitlen a - 1) = 2 ^ nat (bitlen a - 1)"
    using pos by (simp add: power_int_def)
  also have "\<dots> = of_int (2 ^ nat (bitlen a - 1))" by simp
  also have "\<dots> \<le> of_int a" using b(1) by (subst of_int_le_iff)
  finally show "(2::rat) powi (bitlen a - 1) \<le> of_int a" .
  have "(of_int a :: rat) < of_int (2 ^ nat (bitlen a))" using b(2) by (subst of_int_less_iff)
  also have "\<dots> = 2 powi (bitlen a)" using pos by (simp add: power_int_def)
  finally show "of_int a < (2::rat) powi (bitlen a)" .
qed

lemma binade_bounds:
  assumes "x \<noteq> 0"
  shows "2 powi (binade x) \<le> \<bar>x\<bar>" "\<bar>x\<bar> < 2 powi (binade x + 1)"
proof -
  obtain a b where q: "quotient_of \<bar>x\<bar> = (a, b)" by (cases "quotient_of \<bar>x\<bar>")
  have b: "0 < b" using q by (rule quotient_of_denom_pos)
  have xab: "\<bar>x\<bar> = of_int a / of_int b" using q by (rule quotient_of_div)
  have a: "0 < a"
  proof -
    have "0 < \<bar>x\<bar>" using assms by simp
    then have "0 < (of_int a :: rat) / of_int b" using xab by simp
    then show ?thesis using b by (simp add: zero_less_divide_iff)
  qed
  let ?k = "bitlen a - bitlen b"
  have up: "\<bar>x\<bar> < 2 powi (?k + 1)"
  proof -
    have "of_int a / of_int b < (2::rat) powi (bitlen a) / of_int b"
      using int_bitlen_powi(2) [OF a] b by (simp add: divide_strict_right_mono)
    also have "\<dots> \<le> 2 powi (bitlen a) / 2 powi (bitlen b - 1)"
      using int_bitlen_powi(1) [OF b] b by (intro divide_left_mono) (auto simp: zero_less_power_int zero_less_mult_iff)
    also have "\<dots> = 2 powi (bitlen a - (bitlen b - 1))"
      by (rule power_int_diff [symmetric]) simp
    also have "bitlen a - (bitlen b - 1) = ?k + 1"
      by simp
    finally show ?thesis using xab by simp
  qed
  have lo: "2 powi (?k - 1) \<le> \<bar>x\<bar>"
  proof -
    have "?k - 1 = (bitlen a - 1) - bitlen b"
      by simp
    also have "(2::rat) powi \<dots> = 2 powi (bitlen a - 1) / 2 powi (bitlen b)"
      by (rule power_int_diff) simp
    also have "\<dots> \<le> of_int a / 2 powi (bitlen b)"
      using int_bitlen_powi(1) [OF a] by (intro divide_right_mono) auto
    also have "\<dots> \<le> of_int a / of_int b"
      using int_bitlen_powi(2) [OF b] a b by (intro divide_left_mono) (auto simp: zero_less_power_int)
    finally show ?thesis using xab by simp
  qed
  show "2 powi (binade x) \<le> \<bar>x\<bar>"
    using lo by (simp add: binade_def q Let_def)
  show "\<bar>x\<bar> < 2 powi (binade x + 1)"
    using up by (auto simp add: binade_def q Let_def not_le)
qed


lemma binade_less:
  assumes "x \<noteq> 0" "\<bar>x\<bar> < 2 powi k"
  shows "binade x < k"
proof (rule ccontr)
  assume "\<not> binade x < k"
  then have "k \<le> binade x" by simp
  then have "(2::rat) powi k \<le> 2 powi (binade x)"
    by (intro power_int_increasing) auto
  with binade_bounds(1) [OF assms(1)] assms(2) show False by simp
qed

lemma binade_minus: "binade (- x) = binade x"
  by (simp add: binade_def)

lemma round_half_even_floor:
  "round_half_even y = \<lfloor>y\<rfloor> \<or> round_half_even y = \<lfloor>y\<rfloor> + 1"
  by (simp add: round_half_even_def Let_def)

lemma round_half_even_near:
  "of_int (round_half_even y) \<le> y + 1 / 2" "y - 1 / 2 \<le> of_int (round_half_even y)"
proof -
  define n where "n = \<lfloor>y\<rfloor>"
  have f: "of_int n \<le> y" "y < of_int n + 1"
    unfolding n_def by linarith+
  have r: "round_half_even y =
      (if y - of_int n < 1 / 2 then n
       else if 1 / 2 < y - of_int n then n + 1
       else if even n then n else n + 1)"
    by (simp add: round_half_even_def Let_def n_def)
  show "of_int (round_half_even y) \<le> y + 1 / 2"
    unfolding r using f by (simp split: if_splits)
  show "y - 1 / 2 \<le> of_int (round_half_even y)"
    unfolding r using f by (simp split: if_splits)
qed

lemma round_half_even_le_int:
  assumes "y \<le> of_int N"
  shows "round_half_even y \<le> N"
proof (cases "y = of_int N")
  case True
  then show ?thesis by (simp add: round_half_even_def Let_def)
next
  case False
  then have "y < of_int N" using assms by simp
  then have "\<lfloor>y\<rfloor> < N" by (simp add: floor_less_iff)
  then show ?thesis
    using round_half_even_floor [of y] by auto
qed

lemma round_half_even_ge_int:
  assumes "of_int N \<le> y"
  shows "N \<le> round_half_even y"
proof -
  have "N \<le> \<lfloor>y\<rfloor>" using assms by (simp add: le_floor_iff)
  then show ?thesis
    using round_half_even_floor [of y] by auto
qed

lemma round_half_even_of_int: "round_half_even (of_int n) = n"
  by (simp add: round_half_even_def Let_def)

lemma round_half_even_minus: "round_half_even (- y) = - round_half_even y"
proof (cases "y = of_int \<lfloor>y\<rfloor>")
  case True
  then obtain n where "y = of_int n" ..
  then show ?thesis
    using round_half_even_of_int [of n] round_half_even_of_int [of "- n"] by simp
next
  case False
  define n where "n = \<lfloor>y\<rfloor>"
  have f: "of_int n < y" "y < of_int n + 1"
    using False unfolding n_def by (linarith, linarith)
  have fl: "\<lfloor>- y\<rfloor> = - n - 1"
    using f by (intro floor_unique) auto
  have r: "round_half_even y =
      (if y - of_int n < 1 / 2 then n
       else if 1 / 2 < y - of_int n then n + 1
       else if even n then n else n + 1)"
    by (simp add: round_half_even_def Let_def n_def)
  have r': "round_half_even (- y) =
      (if - y - of_int (- n - 1) < 1 / 2 then - n - 1
       else if 1 / 2 < - y - of_int (- n - 1) then - n - 1 + 1
       else if even (- n - 1) then - n - 1 else - n - 1 + 1)"
    by (simp add: round_half_even_def Let_def fl)
  show ?thesis
    unfolding r r' using f by (auto split: if_splits)
qed


lemma float64_minus: "float64 (- x) = - float64 x"
  by (simp add: float64_def binade_minus round_half_even_minus Let_def)

lemma float64_err:
  assumes "x \<noteq> 0"
  shows "\<bar>float64 x - x\<bar> \<le> 2 powi (binade x - 53)"
proof -
  define u :: rat where "u = 2 powi (binade x - 52)"
  have u: "0 < u" by (simp add: u_def zero_less_power_int)
  define R where "R = round_half_even (x / u)"
  have fx: "float64 x = of_int R * u"
    using assms by (simp add: float64_def Let_def u_def R_def)
  have "\<bar>of_int R - x / u\<bar> \<le> 1 / 2"
    using round_half_even_near [of "x / u"] unfolding R_def by linarith
  then have "\<bar>of_int R - x / u\<bar> * u \<le> 1 / 2 * u"
    using u by (intro mult_right_mono) auto
  moreover have "\<bar>of_int R - x / u\<bar> * u = \<bar>of_int R * u - x\<bar>"
  proof -
    have "\<bar>of_int R - x / u\<bar> * u = \<bar>of_int R - x / u\<bar> * \<bar>u\<bar>"
      using u by simp
    also have "\<dots> = \<bar>(of_int R - x / u) * u\<bar>"
      by (rule abs_mult [symmetric])
    also have "(of_int R - x / u) * u = of_int R * u - x"
      using u by (simp add: left_diff_distrib)
    finally show ?thesis .
  qed
  moreover have "1 / 2 * u = 2 powi (binade x - 53)"
  proof -
    have "binade x - 53 = (binade x - 52) - 1" by simp
    also have "(2::rat) powi \<dots> = 2 powi (binade x - 52) / 2 powi 1"
      by (rule power_int_diff) simp
    finally show ?thesis by (simp add: u_def)
  qed
  ultimately show ?thesis using fx by simp
qed

lemma grid_int:
  assumes "x \<noteq> 0" "\<bar>x\<bar> < 2 ^ 53"
  shows "\<exists>n. (1::rat) / 2 powi (binade x - 52) = 2 ^ n"
proof -
  have "\<bar>x\<bar> < 2 powi 53" using assms(2) by simp
  from binade_less [OF assms(1) this] have "0 \<le> 52 - binade x" by simp
  then have "(2::rat) powi (52 - binade x) = 2 ^ nat (52 - binade x)"
    by (simp add: power_int_def)
  moreover have "(2::rat) powi (52 - binade x) = 1 / 2 powi (binade x - 52)"
    using power_int_minus_divide [of "2::rat" "binade x - 52"] by simp
  ultimately show ?thesis by metis
qed

lemma float64_le_int:
  assumes "0 < x" "x \<le> of_int K" "K < 2 ^ 53"
  shows "float64 x \<le> of_int K"
proof -
  define u :: rat where "u = 2 powi (binade x - 52)"
  have u: "0 < u" by (simp add: u_def zero_less_power_int)
  have fx: "float64 x = of_int (round_half_even (x / u)) * u"
    using assms(1) by (simp add: float64_def Let_def u_def)
  have "\<bar>x\<bar> < 2 ^ 53"
  proof -
    have "(of_int K :: rat) < of_int (2 ^ 53)" using assms(3) by (subst of_int_less_iff)
    then show ?thesis using assms(1,2) by simp
  qed
  with grid_int [of x] assms(1) obtain n where n: "1 / u = 2 ^ n"
    unfolding u_def by auto
  have nu: "2 ^ n * u = 1"
    using u by (simp add: n [symmetric])
  have Ku: "of_int K / u = of_int (K * 2 ^ n)"
  proof -
    have "of_int K / u = of_int K * (1 / u)" by simp
    also have "\<dots> = of_int K * 2 ^ n" by (simp only: n)
    finally show ?thesis by simp
  qed
  have Kn: "of_int (K * 2 ^ n) * u = of_int K"
  proof -
    have "of_int (K * 2 ^ n) * u = of_int K * (2 ^ n * u)" by simp
    then show ?thesis by (simp only: nu mult_1_right)
  qed
  have "x / u \<le> of_int K / u"
    using assms(2) u by (simp add: divide_right_mono)
  also have "of_int K / u = of_int (K * 2 ^ n)"
    by (rule Ku)
  finally have "round_half_even (x / u) \<le> K * 2 ^ n"
    by (rule round_half_even_le_int)
  then have "(of_int (round_half_even (x / u)) :: rat) \<le> of_int (K * 2 ^ n)"
    by (subst of_int_le_iff)
  then have "of_int (round_half_even (x / u)) * u \<le> of_int (K * 2 ^ n) * u"
    using u by (intro mult_right_mono) auto
  also have "of_int (K * 2 ^ n) * u = of_int K"
    by (rule Kn)
  finally show ?thesis unfolding fx .
qed

lemma float64_ge_int:
  assumes "0 < x" "of_int K \<le> x" "x < 2 ^ 53"
  shows "of_int K \<le> float64 x"
proof -
  define u :: rat where "u = 2 powi (binade x - 52)"
  have u: "0 < u" by (simp add: u_def zero_less_power_int)
  have fx: "float64 x = of_int (round_half_even (x / u)) * u"
    using assms(1) by (simp add: float64_def Let_def u_def)
  have "\<bar>x\<bar> < 2 ^ 53" using assms(1,3) by simp
  with grid_int [of x] assms(1) obtain n where n: "1 / u = 2 ^ n"
    unfolding u_def by auto
  have nu: "2 ^ n * u = 1"
    using u by (simp add: n [symmetric])
  have Ku: "of_int K / u = of_int (K * 2 ^ n)"
  proof -
    have "of_int K / u = of_int K * (1 / u)" by simp
    also have "\<dots> = of_int K * 2 ^ n" by (simp only: n)
    finally show ?thesis by simp
  qed
  have Kn: "of_int (K * 2 ^ n) * u = of_int K"
  proof -
    have "of_int (K * 2 ^ n) * u = of_int K * (2 ^ n * u)" by simp
    then show ?thesis by (simp only: nu mult_1_right)
  qed
  have "of_int (K * 2 ^ n) = of_int K / u"
    by (rule Ku [symmetric])
  also have "\<dots> \<le> x / u"
    using assms(2) u by (simp add: divide_right_mono)
  finally have "K * 2 ^ n \<le> round_half_even (x / u)"
    by (rule round_half_even_ge_int)
  then have "(of_int (K * 2 ^ n) :: rat) \<le> of_int (round_half_even (x / u))"
    by (subst of_int_le_iff)
  then have le: "of_int (K * 2 ^ n) * u \<le> of_int (round_half_even (x / u)) * u"
    using u by (intro mult_right_mono) auto
  have "of_int K = of_int (K * 2 ^ n) * u"
    by (rule Kn [symmetric])
  also note le
  finally show ?thesis unfolding fx .
qed

lemma float64_of_nat_int:
  assumes "0 \<le> k" "k < 2 ^ 53"
  shows "float64 (of_int k) = of_int k"
proof (cases "k = 0")
  case True
  then show ?thesis by (simp add: float64_def)
next
  case False
  then have pos: "(0::rat) < of_int k" using assms(1) by simp
  have lt: "(of_int k :: rat) < 2 ^ 53"
  proof -
    have "(of_int k :: rat) < of_int (2 ^ 53)" using assms(2) by (subst of_int_less_iff)
    then show ?thesis by simp
  qed
  have "float64 (of_int k) \<le> of_int k"
    using pos assms(2) by (intro float64_le_int) auto
  moreover have "of_int k \<le> float64 (of_int k)"
    using pos lt by (intro float64_ge_int) auto
  ultimately show ?thesis by simp
qed


lemma sdiv_smod_nonneg:
  "0 \<le> d \<Longrightarrow> d sdiv Second = d div Second \<and> d smod Second = d mod Second"
  by (cases "d = 0") (simp_all add: signed_divide_int_def signed_modulo_int_def Second_def)

lemma sdiv_smod_minus:
  "(- d) sdiv Second = - (d sdiv Second) \<and> (- d) smod Second = - (d smod Second)"
  by (simp add: signed_divide_int_def signed_modulo_int_def Second_def)

lemma Seconds_minus: "Seconds (- d) = - Seconds d"
proof -
  define A where "A = float64 (rat_of_int (d sdiv Second))"
  define B where "B = float64 (float64 (rat_of_int (d smod Second)) / 1000000000)"
  have "Seconds (- d) = float64 (- A + - B)"
    by (simp add: Seconds_def Let_def sdiv_smod_minus float64_minus A_def B_def)
  also have "- A + - B = - (A + B)"
    by simp
  also have "float64 (- (A + B)) = - float64 (A + B)"
    by (rule float64_minus)
  finally show ?thesis
    by (simp add: Seconds_def Let_def A_def B_def)
qed

lemma frac_bounds:
  assumes "0 < n" "n < Second"
  shows "1 / 1000000000 - 2 powi (- 54) \<le> float64 (float64 (of_int n) / 1000000000)"
    and "float64 (float64 (of_int n) / 1000000000) \<le> 1 - 1 / 1000000000 + 2 powi (- 54)"
proof -
  have n53: "n < 2 ^ 53" using assms(2) by (simp add: Second_def)
  have fn: "float64 (of_int n) = of_int n"
    using assms(1) n53 by (intro float64_of_nat_int) auto
  define x :: rat where "x = of_int n / 1000000000"
  have "1 \<le> n" "n \<le> 999999999" using assms by (simp_all add: Second_def)
  then have "(of_int 1 :: rat) \<le> of_int n" "(of_int n :: rat) \<le> of_int 999999999"
    by (simp_all only: of_int_le_iff)
  then have x: "1 / 1000000000 \<le> x" "x \<le> 1 - 1 / 1000000000"
    by (simp_all add: x_def field_simps)
  then have x0: "x \<noteq> 0" "\<bar>x\<bar> < 2 powi 0" by auto
  from binade_less [OF this] have "binade x - 53 \<le> - 54" by simp
  then have "(2::rat) powi (binade x - 53) \<le> 2 powi (- 54)"
    by (intro power_int_increasing) auto
  with float64_err [OF x0(1)] have "\<bar>float64 x - x\<bar> \<le> 2 powi (- 54)"
    by linarith
  then show "1 / 1000000000 - 2 powi (- 54) \<le> float64 (float64 (of_int n) / 1000000000)"
    and "float64 (float64 (of_int n) / 1000000000) \<le> 1 - 1 / 1000000000 + 2 powi (- 54)"
    using x unfolding fn x_def [symmetric] by linarith+
qed


lemma float64_0: "float64 0 = 0"
  by (simp add: float64_def)

lemma Seconds_whole:
  assumes "0 \<le> d" "d mod Second = 0" "d div Second < 2 ^ 53"
  shows "Seconds d = of_int (d div Second)"
proof -
  have "0 \<le> d div Second" using assms(1) by (simp add: Second_def pos_imp_zdiv_nonneg_iff)
  then have "float64 (of_int (d div Second)) = of_int (d div Second)"
    using assms(3) by (intro float64_of_nat_int) auto
  then show ?thesis
    using assms(2) sdiv_smod_nonneg [OF assms(1)]
    by (simp add: Seconds_def Let_def float64_0)
qed

lemma Seconds_between:
  assumes "0 \<le> d" "0 < d mod Second" "d div Second < 2 ^ 53 - 1"
  shows "of_int (d div Second) \<le> Seconds d" "Seconds d \<le> of_int (d div Second) + 1"
    and "d div Second < 2 ^ 24 \<Longrightarrow> of_int (d div Second) < Seconds d"
    and "d div Second < 2 ^ 24 \<Longrightarrow> Seconds d < of_int (d div Second) + 1"
proof -
  define s where "s = d div Second"
  define f where "f = float64 (float64 (of_int (d mod Second)) / 1000000000)"
  have s0: "0 \<le> s" using assms(1) by (simp add: s_def Second_def pos_imp_zdiv_nonneg_iff)
  have s53: "s < 2 ^ 53" using assms(3) by (simp add: s_def)
  have fs: "float64 (of_int s) = of_int s"
    using s0 s53 by (intro float64_of_nat_int) auto
  have "d mod Second < Second" by (simp add: Second_def)
  from frac_bounds [OF assms(2) this]
  have f: "1 / 1000000000 - 2 powi (- 54) \<le> f" "f \<le> 1 - 1 / 1000000000 + 2 powi (- 54)"
    by (simp_all add: f_def)
  have p54: "(2::rat) powi (- 54) = 1 / 18014398509481984"
    by (simp add: power_int_minus field_simps)
  have p30: "(2::rat) powi (- 30) = 1 / 1073741824"
    by (simp add: power_int_minus field_simps)
  have f01: "0 < f" "f < 1" using f unfolding p54 by linarith+
  have S: "Seconds d = float64 (of_int s + f)"
    using sdiv_smod_nonneg [OF assms(1)] by (simp add: Seconds_def Let_def s_def f_def fs [unfolded s_def])
  have rs: "(0::rat) \<le> of_int s" using s0 by simp
  have y0: "0 < of_int s + f" using rs f01 by linarith
  have "s + 1 < 2 ^ 53" using assms(3) by (simp add: s_def)
  have "(of_int (s + 1) :: rat) \<le> of_int (2 ^ 53 - 1)"
    using assms(3) unfolding s_def [symmetric] by (subst of_int_le_iff) simp
  then have rs1: "(of_int s :: rat) + 1 \<le> 2 ^ 53 - 1" by simp
  have y53: "of_int s + f < 2 ^ 53" using rs1 f01 by linarith
  show "of_int (d div Second) \<le> Seconds d"
    unfolding S s_def [symmetric] using y0 y53 f01 by (intro float64_ge_int) auto
  have "float64 (of_int s + f) \<le> of_int (s + 1)"
    using y0 f01 \<open>s + 1 < 2 ^ 53\<close> by (intro float64_le_int) auto
  then show "Seconds d \<le> of_int (d div Second) + 1"
    unfolding S s_def [symmetric] by simp
  have near: "\<bar>float64 (of_int s + f) - (of_int s + f)\<bar> \<le> 2 powi (- 30)" if "s < 2 ^ 24"
  proof -
    have "(of_int (s + 1) :: rat) \<le> of_int (2 ^ 24)"
      using that by (subst of_int_le_iff) simp
    then have "\<bar>of_int s + f\<bar> < 2 powi 24" using y0 f01 by simp
    from binade_less [OF _ this] y0 have "binade (of_int s + f) - 53 \<le> - 30" by simp
    then have "(2::rat) powi (binade (of_int s + f) - 53) \<le> 2 powi (- 30)"
      by (intro power_int_increasing) auto
    with float64_err [of "of_int s + f"] y0 show ?thesis by linarith
  qed
  show "of_int (d div Second) < Seconds d" if "d div Second < 2 ^ 24"
    using near f that unfolding S s_def [symmetric] p54 p30 by linarith
  show "Seconds d < of_int (d div Second) + 1" if "d div Second < 2 ^ 24"
    using near f that unfolding S s_def [symmetric] p54 p30 by linarith
qed


lemma ceil_Seconds_nonneg:
  assumes "0 \<le> d" "d < 2 ^ 24 * Second"
  shows "\<lceil>Seconds d\<rceil> = - ((- d) div Second)"
proof -
  have s24: "d div Second < 2 ^ 24"
    using assms by (simp add: Second_def)
  show ?thesis
  proof (cases "d mod Second = 0")
    case True
    then have "Seconds d = of_int (d div Second)"
      using assms(1) s24 by (intro Seconds_whole) auto
    moreover have "(- d) div Second = - (d div Second)"
      using True by (simp add: zdiv_zminus1_eq_if Second_def)
    ultimately show ?thesis by simp
  next
    case False
    then have n: "0 < d mod Second"
      using pos_mod_sign [of Second d] by (simp add: Second_def)
    have "of_int (d div Second) < Seconds d" "Seconds d < of_int (d div Second) + 1"
      using Seconds_between(3,4) [OF assms(1) n] s24 by auto
    then have "\<lceil>Seconds d\<rceil> = d div Second + 1"
      by (intro ceiling_unique) auto
    moreover have "(- d) div Second = - (d div Second) - 1"
      using False by (simp add: zdiv_zminus1_eq_if Second_def)
    ultimately show ?thesis by simp
  qed
qed

lemma ceil_Seconds_neg:
  assumes "d < 0" "- (2 ^ 24 * Second) < d"
  shows "\<lceil>Seconds d\<rceil> = - ((- d) div Second)"
proof -
  define D where "D = - d"
  have D: "0 \<le> D" "D < 2 ^ 24 * Second" using assms by (simp_all add: D_def)
  have s24: "D div Second < 2 ^ 24"
    using D by (simp add: Second_def)
  have S: "Seconds d = - Seconds D"
    using Seconds_minus [of D] by (simp add: D_def)
  have "\<lfloor>Seconds D\<rfloor> = D div Second"
  proof (cases "D mod Second = 0")
    case True
    then have "Seconds D = of_int (D div Second)"
      using D(1) s24 by (intro Seconds_whole) auto
    then show ?thesis by simp
  next
    case False
    then have n: "0 < D mod Second"
      using pos_mod_sign [of Second D] by (simp add: Second_def)
    have "of_int (D div Second) < Seconds D" "Seconds D < of_int (D div Second) + 1"
      using Seconds_between(3,4) [OF D(1) n] s24 by auto
    then show ?thesis
      by (intro floor_unique) auto
  qed
  then show ?thesis
    unfolding S by (simp add: ceiling_minus D_def)
qed

lemma ceil_Seconds:
  assumes "\<bar>d\<bar> < 2 ^ 24 * Second"
  shows "\<lceil>Seconds d\<rceil> = - ((- d) div Second)"
  using assms ceil_Seconds_nonneg [of d] ceil_Seconds_neg [of d]
  by (cases "0 \<le> d") auto

lemma ceil_div_Second:
  "d \<le> (- ((- d) div Second)) * Second" "(- ((- d) div Second) - 1) * Second < d"
  "- ((- d) div Second) = \<lceil>of_int d / of_int Second :: rat\<rceil>"
proof -
  have "(- d) div Second * Second \<le> - d" "- d < ((- d) div Second + 1) * Second"
    using div_mult_mod_eq [of "- d" Second] pos_mod_bound [of Second "- d"] pos_mod_sign [of Second "- d"]
    by (simp_all add: Second_def algebra_simps)
  then show "d \<le> (- ((- d) div Second)) * Second" "(- ((- d) div Second) - 1) * Second < d"
    by (simp_all add: algebra_simps)
  show "- ((- d) div Second) = \<lceil>of_int d / of_int Second :: rat\<rceil>"
    by (simp add: ceiling_divide_eq_div)
qed

section \<open>Update\<close>

lemma applyMod_loop_Some:
  "applyMod_loop add ds (Some S) = Ret (Some (if add then S \<union> set ds else S - set ds))"
  by (induction ds arbitrary: S) auto

lemma applyMod_Some:
  "domains w = Some S \<Longrightarrow> applyMod upd w = Ret (w\<lparr>domains := Some (apply_batch upd S)\<rparr>)"
  by (simp add: applyMod_def applyMod_loop_Some apply_batch_def)

lemma applyMods_Some:
  "domains w = Some S \<Longrightarrow> applyMods mods w = Ret (w\<lparr>domains := Some (merge_batches mods S)\<rparr>)"
proof (induction mods arbitrary: w S)
  case Nil
  then show ?case by (simp add: merge_batches_def)
next
  case (Cons upd mods)
  have "applyMods mods (w\<lparr>domains := Some (apply_batch upd S)\<rparr>) =
          Ret (w\<lparr>domains := Some (apply_batch upd S)\<rparr>
                \<lparr>domains := Some (merge_batches mods (apply_batch upd S))\<rparr>)"
    by (rule Cons.IH) simp
  then show ?case
    using Cons.prems by (simp add: applyMod_Some merge_batches_def)
qed

lemma Since_in_range:
  "minDuration \<le> now - t \<Longrightarrow> now - t \<le> maxDuration \<Longrightarrow> Since now t = now - t"
  by (simp add: Since_def Time_Sub_def)

lemma Update_window_exact:
  assumes "\<bar>now1 - lastUpdated w + Minute\<bar> < 2 ^ 24 * Second"
  shows "After_seconds now1 (Time_Add (lastUpdated w) (- (Minute * 1)))
           = - ((- (now1 - lastUpdated w + Minute)) div Second)"
proof -
  have "Since now1 (Time_Add (lastUpdated w) (- (Minute * 1))) = now1 - lastUpdated w + Minute"
    using assms
    by (auto simp add: Since_def Time_Sub_def Time_Add_def maxDuration_def minDuration_def Second_def Minute_def)
  then show ?thesis
    using ceil_Seconds [OF assms] by (simp add: After_seconds_def)
qed

lemma Update_fail:
  assumes "recent (After_seconds now1 (Time_Add (lastUpdated w) (- (Minute * 1)))) = (mods, Some e)"
  shows "Update recent now1 now2 w =
     Ret (w\<lparr>netlog := netlog w @ [(CallRecent (After_seconds now1 (Time_Add (lastUpdated w) (- (Minute * 1)))), True)],
            m_locked := False\<rparr>, Some e)"
  using assms by (simp add: Update_def Let_def Lock_def Unlock_def transport_def)

lemma Update_success:
  assumes "recent (After_seconds now1 (Time_Add (lastUpdated w) (- (Minute * 1)))) = (mods, None)"
    and "domains w = Some S" and "notifier_ok w"
  shows "\<exists>w'. Update recent now1 now2 w = Ret (w', None)
          \<and> lastUpdated w' = now2 \<and> domains w' = Some (merge_batches mods S)
          \<and> netlog w' = netlog w @ [(CallRecent (After_seconds now1 (Time_Add (lastUpdated w) (- (Minute * 1)))), True)]"
proof -
  let ?s = "After_seconds now1 (Time_Add (lastUpdated w) (- (Minute * 1)))"
  let ?w3 = "(transport (CallRecent ?s) (Lock w))\<lparr>lastUpdated := now2\<rparr>"
  let ?w4 = "?w3\<lparr>domains := Some (merge_batches mods S)\<rparr>"
  have a: "applyMods mods ?w3 = Ret ?w4"
    using assms(2) by (intro applyMods_Some) (simp add: transport_def Lock_def)
  have "notifier_ok ?w4"
    using assms(3) by (simp add: notifier_ok_def Lock_def transport_def split: option.splits)
  from sendUpdate_ok [OF this] obtain w5 where
    w5: "sendUpdate ?w4 = Ret w5" "domains w5 = domains ?w4" "lastUpdated w5 = lastUpdated ?w4"
      "netlog w5 = netlog ?w4"
    by auto
  show ?thesis
  proof (cases "0 < length mods")
    case True
    then have "Update recent now1 now2 w = Ret (Unlock w5, None)"
      using assms(1) a w5(1) by (simp add: Update_def Let_def Lock_def)
    then show ?thesis
      using w5 by (simp add: Unlock_def transport_def Lock_def)
  next
    case False
    then have "Update recent now1 now2 w = Ret (Unlock ?w4, None)"
      using assms(1) a by (simp add: Update_def Let_def Lock_def)
    then show ?thesis
      by (simp add: Unlock_def transport_def Lock_def)
  qed
qed

lemma cex_seconds: "After_seconds (1700000000 * Second) (Time_Add zero_Time (- (Minute * 1))) = 9223372037"
  by code_simp


lemma Seconds_maxDuration: "\<lceil>Seconds maxDuration\<rceil> = 9223372037"
  by code_simp

lemma After_seconds_saturated:
  "maxDuration < now - t \<Longrightarrow> After_seconds now t = 9223372037"
  by (simp add: After_seconds_def Since_def Time_Sub_def Seconds_maxDuration)

lemma After_seconds_coarse:
  assumes "0 \<le> now - t" "now - t \<le> maxDuration"
  shows "(now - t) div Second \<le> After_seconds now t"
    and "After_seconds now t \<le> (now - t) div Second + 1"
proof -
  define d where "d = now - t"
  have S: "Since now t = d"
    using assms by (simp add: Since_def Time_Sub_def d_def minDuration_def)
  have d: "0 \<le> d" "d div Second < 2 ^ 53 - 1"
    using assms by (simp_all add: d_def maxDuration_def Second_def)
  have "of_int (d div Second) \<le> Seconds d \<and> Seconds d \<le> of_int (d div Second) + 1"
  proof (cases "d mod Second = 0")
    case True
    then have "Seconds d = of_int (d div Second)"
      using d by (intro Seconds_whole) auto
    then show ?thesis by simp
  next
    case False
    then have "0 < d mod Second"
      using pos_mod_sign [of Second d] by (simp add: Second_def)
    from Seconds_between(1,2) [OF d(1) this d(2)] show ?thesis by simp
  qed
  then have "d div Second \<le> \<lceil>Seconds d\<rceil>" "\<lceil>Seconds d\<rceil> \<le> d div Second + 1"
    by (simp_all add: le_ceiling_iff ceiling_le_iff)
  then show "(now - t) div Second \<le> After_seconds now t"
    and "After_seconds now t \<le> (now - t) div Second + 1"
    by (simp_all add: After_seconds_def S d_def [symmetric])
qed

text \<open>
  The bound of \<open>2 ^ 24\<close> seconds is sharp: one nanosecond above it the sum
  \<open>float64(sec) + float64(nsec)/1e9\<close> rounds to the whole second and \<^verbatim>\<open>math.Ceil\<close> has
  nothing left to round up.
\<close>

lemma Seconds_rounding_loss:
  "After_seconds 16777216000000001 0 = 16777216"
  by code_simp

text \<open>
  Claim C3 as stated fails on a client that has never synchronised. Its \<open>lastUpdated\<close> is
  the zero time, the gap to a clock reading of November 2023 plus the minute of overlap is
  about 2023 years, \<^verbatim>\<open>time.Since\<close> saturates at the largest \<^verbatim>\<open>Duration\<close> (about 292 years)
  and \<^verbatim>\<open>Update\<close> asks for 9223372037 seconds, less than the gap.
\<close>

theorem C3_window_counterexample:
  "Update recent_nothing (1700000000 * Second) (1700000001 * Second) New =
     Ret (New\<lparr>netlog := [(CallRecent 9223372037, True)],
              lastUpdated := 1700000001 * Second\<rparr>, None)
   \<and> 9223372037 * Second < 1700000000 * Second - lastUpdated New + 60 * Second"
proof -
  have "After_seconds (1700000000 * Second) (Time_Add (lastUpdated New) (- (Minute * 1))) = 9223372037"
    using cex_seconds by (simp add: New_def)
  then show ?thesis
    by (simp add: Update_def Let_def Lock_def Unlock_def transport_def recent_nothing_def)
      (simp add: New_def zero_Time_def Second_def)
qed

text \<open>
  Claim C3, amended. Let \<open>d\<close> be the time from \<open>lastUpdated\<close> to the clock reading made for
  the request, plus 60 seconds, and \<open>s\<close> the number of seconds \<^verbatim>\<open>Update\<close> asks the transport
  for. If \<open>d\<close> is less than \<open>2 ^ 24\<close> seconds (about 194 days) in magnitude, \<open>s\<close> is \<open>d\<close> in
  whole seconds rounded up, hence at least \<open>d\<close>. If \<open>d\<close> is not negative and at most the
  largest \<^verbatim>\<open>Duration\<close>, \<open>s\<close> is the whole seconds of \<open>d\<close> or one more. If \<open>d\<close> exceeds the
  largest \<^verbatim>\<open>Duration\<close>, \<open>s\<close> is 9223372037. When the transport fails, \<^verbatim>\<open>Update\<close> returns
  its error and leaves \<open>lastUpdated\<close> and the cache as they were. When it succeeds, on a
  client with a non-nil cache whose notification channel, if any, is open, \<^verbatim>\<open>Update\<close>
  returns no error, \<open>lastUpdated\<close> is the clock reading made after the answer and the cache
  is the old one with the returned batches applied in the order received.
\<close>

theorem C3_Update_window:
  "s = After_seconds now1 (Time_Add (lastUpdated w) (- (Minute * 1))) \<Longrightarrow>
   d = now1 - lastUpdated w + 60 * Second \<Longrightarrow>
   (\<bar>d\<bar> < 2 ^ 24 * Second \<longrightarrow>
      s = \<lceil>of_int d / of_int Second :: rat\<rceil> \<and> d \<le> s * Second \<and> (s - 1) * Second < d)
   \<and> (0 \<le> d \<and> d \<le> maxDuration \<longrightarrow> d div Second \<le> s \<and> s \<le> d div Second + 1)
   \<and> (maxDuration < d \<longrightarrow> s = 9223372037)
   \<and> (recent s = (mods, Some e) \<longrightarrow>
        (\<exists>w'. Update recent now1 now2 w = Ret (w', Some e)
           \<and> netlog w' = netlog w @ [(CallRecent s, True)]
           \<and> lastUpdated w' = lastUpdated w \<and> domains w' = domains w))
   \<and> (recent s = (mods, None) \<and> domains w = Some S \<and> notifier_ok w \<longrightarrow>
        (\<exists>w'. Update recent now1 now2 w = Ret (w', None)
           \<and> netlog w' = netlog w @ [(CallRecent s, True)]
           \<and> lastUpdated w' = now2 \<and> domains w' = Some (merge_batches mods S)))"
proof -
  assume s: "s = After_seconds now1 (Time_Add (lastUpdated w) (- (Minute * 1)))"
    and d: "d = now1 - lastUpdated w + 60 * Second"
  have dd: "now1 - Time_Add (lastUpdated w) (- (Minute * 1)) = d"
    by (simp add: d Time_Add_def Minute_def)
  have exact: "s = \<lceil>of_int d / of_int Second :: rat\<rceil> \<and> d \<le> s * Second \<and> (s - 1) * Second < d"
    if "\<bar>d\<bar> < 2 ^ 24 * Second"
  proof -
    have "s = - ((- d) div Second)"
      using that Update_window_exact [of now1 w] by (simp add: s d Minute_def)
    then show ?thesis
      using ceil_div_Second [of d] by simp
  qed
  have coarse: "d div Second \<le> s \<and> s \<le> d div Second + 1" if h: "0 \<le> d \<and> d \<le> maxDuration"
  proof -
    have "0 \<le> now1 - Time_Add (lastUpdated w) (- (Minute * 1))"
      and "now1 - Time_Add (lastUpdated w) (- (Minute * 1)) \<le> maxDuration"
      using h unfolding dd by auto
    from After_seconds_coarse [OF this] show ?thesis
      unfolding dd s by blast
  qed
  have sat: "s = 9223372037" if h: "maxDuration < d"
  proof -
    have "maxDuration < now1 - Time_Add (lastUpdated w) (- (Minute * 1))"
      using h unfolding dd .
    from After_seconds_saturated [OF this] show ?thesis
      unfolding s .
  qed
  have fail: "\<exists>w'. Update recent now1 now2 w = Ret (w', Some e)
           \<and> netlog w' = netlog w @ [(CallRecent s, True)]
           \<and> lastUpdated w' = lastUpdated w \<and> domains w' = domains w"
    if "recent s = (mods, Some e)"
    using Update_fail [of recent now1 w mods e now2] that by (simp add: s)
  have succ: "\<exists>w'. Update recent now1 now2 w = Ret (w', None)
           \<and> netlog w' = netlog w @ [(CallRecent s, True)]
           \<and> lastUpdated w' = now2 \<and> domains w' = Some (merge_batches mods S)"
    if "recent s = (mods, None) \<and> domains w = Some S \<and> notifier_ok w"
    using Update_success [of recent now1 w mods S now2] that by (auto simp add: s)
  show ?thesis
    using exact coarse sat fail succ by blast
qed


lemma After_seconds_63:
  "After_seconds 1002000000001 (Time_Add 1000000000000 (- (Minute * 1))) = 63"
  by code_simp

theorem C3_Update_window_witness:
  "\<bar>1002000000001 - lastUpdated w_synced + 60 * Second\<bar> < 2 ^ 24 * Second
   \<and> After_seconds 1002000000001 (Time_Add (lastUpdated w_synced) (- (Minute * 1))) = 63
   \<and> 1002000000001 - lastUpdated w_synced + 60 * Second \<le> 63 * Second
   \<and> (\<exists>w'. Update recent_two 1002000000001 1002500000000 w_synced = Ret (w', None)
          \<and> netlog w' = [(CallRecent 63, True)]
          \<and> lastUpdated w' = 1002500000000
          \<and> domains w' = Some {''b.example'', ''c.example''})"
proof -
  let ?s = "After_seconds 1002000000001 (Time_Add (lastUpdated w_synced) (- (Minute * 1)))"
  let ?mods = "[\<lparr>Add = True, Domains = [''c.example'']\<rparr>, \<lparr>Add = False, Domains = [''a.example'']\<rparr>]"
  let ?S = "{''a.example'', ''b.example''}"
  have T: "lastUpdated w_synced = 1000000000000"
    by (simp add: w_synced_def)
  have r: "\<bar>1002000000001 - lastUpdated w_synced + 60 * Second\<bar> < 2 ^ 24 * Second"
    by (simp add: T Second_def)
  have le: "1002000000001 - lastUpdated w_synced + 60 * Second \<le> 63 * Second"
    by (simp add: T Second_def)
  have s: "?s = 63"
    unfolding T by (rule After_seconds_63)
  have m: "merge_batches ?mods ?S = {''b.example'', ''c.example''}"
    by (auto simp add: merge_batches_def apply_batch_def)
  have pre: "recent_two ?s = (?mods, None) \<and> domains w_synced = Some ?S \<and> notifier_ok w_synced"
    by (simp add: recent_two_def w_synced_def notifier_ok_def New_def)
  have n: "netlog w_synced = []"
    by (simp add: w_synced_def New_def)
  from C3_Update_window [of ?s 1002000000001 w_synced
      "1002000000001 - lastUpdated w_synced + 60 * Second" recent_two ?mods "Err ''x''"
      1002500000000 ?S, OF refl refl] pre
  have "\<exists>w'. Update recent_two 1002000000001 1002500000000 w_synced = Ret (w', None)
           \<and> netlog w' = netlog w_synced @ [(CallRecent ?s, True)]
           \<and> lastUpdated w' = 1002500000000 \<and> domains w' = Some (merge_batches ?mods ?S)"
    by blast
  then have "\<exists>w'. Update recent_two 1002000000001 1002500000000 w_synced = Ret (w', None)
          \<and> netlog w' = [(CallRecent 63, True)]
          \<and> lastUpdated w' = 1002500000000
          \<and> domains w' = Some {''b.example'', ''c.example''}"
    unfolding s m n by simp
  with r s le show ?thesis by blast
qed

section \<open>What the operations write\<close>

lemma sendUpdate_keeps:
  "sendUpdate w = Ret w1 \<Longrightarrow>
     lastUpdated w1 = lastUpdated w \<and> netlog w1 = netlog w \<and> domains w1 = domains w"
  by (auto simp add: sendUpdate_def Let_def split: option.splits if_splits)

lemma applyMod_keeps:
  "applyMod upd w = Ret w1 \<Longrightarrow> lastUpdated w1 = lastUpdated w \<and> netlog w1 = netlog w"
  by (auto simp add: applyMod_def split: outcome.splits)

lemma applyMods_keeps:
  "applyMods mods w = Ret w1 \<Longrightarrow> lastUpdated w1 = lastUpdated w \<and> netlog w1 = netlog w"
proof (induction mods arbitrary: w)
  case Nil
  then show ?case by simp
next
  case (Cons upd mods)
  then obtain w0 where w0: "applyMod upd w = Ret w0" "applyMods mods w0 = Ret w1"
    by (auto split: outcome.splits)
  show ?case
    using applyMod_keeps [OF w0(1)] Cons.IH [OF w0(2)] by simp
qed

lemma FullSync_stamp:
  assumes "FullSync all_result now w = Ret (w1, err)"
  shows "lastUpdated w1 = lastUpdated w \<or> lastUpdated w1 = now"
    and "netlog w1 = netlog w @ [(CallAll, m_locked w)]"
proof -
  obtain ds e where r: "all_result = (ds, e)" by (cases all_result)
  show "lastUpdated w1 = lastUpdated w \<or> lastUpdated w1 = now"
    using assms sendUpdate_keeps
    by (cases e)
      (fastforce simp add: FullSync_def r Let_def transport_def Lock_def Unlock_def
        split: outcome.splits)+
  show "netlog w1 = netlog w @ [(CallAll, m_locked w)]"
    using assms sendUpdate_keeps
    by (cases e)
      (fastforce simp add: FullSync_def r Let_def transport_def Lock_def Unlock_def
        split: outcome.splits)+
qed

lemma Update_stamp:
  assumes "Update recent now1 now2 w = Ret (w1, err)"
  shows "lastUpdated w1 = lastUpdated w \<or> lastUpdated w1 = now2"
    and "netlog w1 = netlog w @
           [(CallRecent (After_seconds now1 (Time_Add (lastUpdated w) (- (Minute * 1)))), True)]"
proof -
  let ?s = "After_seconds now1 (Time_Add (lastUpdated w) (- (Minute * 1)))"
  let ?w2 = "transport (CallRecent ?s) (Lock w)"
  obtain mods e where r: "recent ?s = (mods, e)" by (cases "recent ?s")
  have both: "(lastUpdated w1 = lastUpdated w \<or> lastUpdated w1 = now2) \<and>
      netlog w1 = netlog w @ [(CallRecent ?s, True)]"
  proof (cases e)
    case (Some err0)
    then have "w1 = Unlock ?w2"
      using assms r by (simp add: Update_def Let_def Lock_def)
    then show ?thesis by (simp add: Unlock_def transport_def Lock_def)
  next
    case None
    let ?w3 = "?w2\<lparr>lastUpdated := now2\<rparr>"
    from assms r None obtain w4 where w4: "applyMods mods ?w3 = Ret w4"
      by (auto simp add: Update_def Let_def Lock_def split: outcome.splits)
    from assms r None w4 obtain w5 where
      w5: "(if 0 < length mods then sendUpdate w4 else Ret w4) = Ret w5" "w1 = Unlock w5"
      by (auto simp add: Update_def Let_def Lock_def split: outcome.splits)
    have k4: "lastUpdated w4 = now2" "netlog w4 = netlog ?w3"
      using applyMods_keeps [OF w4] by simp_all
    have k5: "lastUpdated w5 = lastUpdated w4" "netlog w5 = netlog w4"
      using w5(1) sendUpdate_keeps [of w4 w5] by (auto split: if_splits)
    show ?thesis
      using k4 k5 w5(2) by (simp add: Unlock_def transport_def Lock_def)
  qed
  then show "lastUpdated w1 = lastUpdated w \<or> lastUpdated w1 = now2"
    and "netlog w1 = netlog w @ [(CallRecent ?s, True)]"
    by simp_all
qed







section \<open>The time stamp over a sequence of operations\<close>





section \<open>Transport calls and the mutex\<close>

text \<open>
  Claim C6 on the code. Whenever \<^verbatim>\<open>Update\<close> returns, the one transport call it made
  (\<^verbatim>\<open>Recent\<close>, through \<^verbatim>\<open>After\<close>) was made with the mutex held: \<^verbatim>\<open>Update\<close> locks first and
  calls the transport afterwards. \<^verbatim>\<open>FullSync\<close> calls the transport before it locks: its call
  is logged with the mutex in the state in which \<^verbatim>\<open>FullSync\<close> was entered. On the
  synchronised client, whose mutex is free, \<^verbatim>\<open>Update\<close> logs its call as made under the lock
  and \<^verbatim>\<open>FullSync\<close> logs its call as made outside.
\<close>

theorem C6_transport_and_lock:
  "(case Update recent now1 now2 w of
      Panic p \<Rightarrow> True
    | Ret (w1, err) \<Rightarrow>
        netlog w1 = netlog w @
          [(CallRecent (After_seconds now1 (Time_Add (lastUpdated w) (- (Minute * 1)))), True)])
   \<and> (case FullSync all_result now w of
        Panic p \<Rightarrow> True
      | Ret (w1, err) \<Rightarrow> netlog w1 = netlog w @ [(CallAll, m_locked w)])
   \<and> \<not> m_locked w_synced
   \<and> Update recent_two 1002000000001 1002500000000 w_synced
       = Ret (w_synced\<lparr>netlog := [(CallRecent 63, True)], lastUpdated := 1002500000000,
                       domains := Some {''b.example'', ''c.example''}\<rparr>, None)
   \<and> FullSync ([''c.example''], None) 1002500000000 w_synced
       = Ret (w_synced\<lparr>netlog := [(CallAll, False)], lastUpdated := 1002500000000,
                       domains := Some {''c.example''}\<rparr>, None)"
proof -
  have u: "case Update recent now1 now2 w of
      Panic p \<Rightarrow> True
    | Ret (w1, err) \<Rightarrow>
        netlog w1 = netlog w @
          [(CallRecent (After_seconds now1 (Time_Add (lastUpdated w) (- (Minute * 1)))), True)]"
    using Update_stamp(2) [of recent now1 now2 w]
    by (auto split: outcome.splits)
  have f: "case FullSync all_result now w of
        Panic p \<Rightarrow> True
      | Ret (w1, err) \<Rightarrow> netlog w1 = netlog w @ [(CallAll, m_locked w)]"
    using FullSync_stamp(2) [of all_result now w]
    by (auto split: outcome.splits)
  have s: "After_seconds 1002000000001 (Time_Add (lastUpdated w_synced) (- (Minute * 1))) = 63"
    using After_seconds_63 by (simp add: w_synced_def)
  have s2: "After_seconds 1002000000001 (Time_Add 1000000000000 (- Minute)) = 63"
    using After_seconds_63 by simp
  have d: "{''c.example'', ''a.example'', ''b.example''} - {''a.example''}
             = {''b.example'', ''c.example''}"
    by auto
  have cu: "Update recent_two 1002000000001 1002500000000 w_synced
       = Ret (w_synced\<lparr>netlog := [(CallRecent 63, True)], lastUpdated := 1002500000000,
                       domains := Some {''b.example'', ''c.example''}\<rparr>, None)"
    by (simp add: Update_def recent_two_def Let_def Lock_def Unlock_def transport_def
        applyMod_def sendUpdate_def w_synced_def New_def d s2)
  have cf: "FullSync ([''c.example''], None) 1002500000000 w_synced
       = Ret (w_synced\<lparr>netlog := [(CallAll, False)], lastUpdated := 1002500000000,
                       domains := Some {''c.example''}\<rparr>, None)"
    by (simp add: FullSync_def Let_def Lock_def Unlock_def transport_def sendUpdate_def
        w_synced_def New_def)
  have "\<not> m_locked w_synced"
    by (simp add: w_synced_def New_def)
  with u f cu cf show ?thesis by blast
qed

section \<open>Saving and loading\<close>





section \<open>The orchestrator\<close>

lemma AutoSync_loop_feed_error_lost:
  "AutoSync_loop True None (Some ri) (Some fi) (FeedEnds (Some e) # rest) w =
     AutoSync_loop True None (Some ri) (Some fi) rest (listen_deferred w)"
  by (simp add: chan_send_def chan_recv_def Let_def)

text \<open>
  Claim C7 on the code. The channel \<open>stream\<close> is nil, so the result of the live-feed
  session is never received: when the session ends with an error, the loop goes on with
  the next event. With a live feed that fails to dial, \<^verbatim>\<open>AutoSync\<close> keeps waiting, and
  returns nil when the context is cancelled later. An error of a periodic \<^verbatim>\<open>FullSync\<close> is
  returned. With an interval that is not positive the ticker is nil and the first
  \<^verbatim>\<open>select\<close> panics, before a cancellation can be seen.
\<close>

theorem C7_AutoSync_feed_error_lost:
  "AutoSync_loop True None (Some ri) (Some fi) (FeedEnds (Some e) # rest) w =
     AutoSync_loop True None (Some ri) (Some fi) rest (listen_deferred w)
   \<and> snd (AutoSync True Minute (60 * Minute) ([''a.example''], None) 1000000000000
          [FeedStarts 1, FeedEnds (Some (Err ''failed to dial''))] New) = Waits
   \<and> snd (AutoSync True Minute (60 * Minute) ([''a.example''], None) 1000000000000
          [FeedStarts 1, FeedEnds (Some (Err ''failed to dial'')), CtxDone] New) = Returns None
   \<and> snd (AutoSync True Minute (60 * Minute) ([''a.example''], None) 1000000000000
          [FullSyncTick ([], Some (Err ''status 500'')) 1000000000001] New)
        = Returns (Some (Err ''status 500''))
   \<and> snd (AutoSync False 0 (60 * Minute) ([''a.example''], None) 1000000000000
          [CtxDone] New) = Panics NilDereference"
proof -
  have a: "snd (AutoSync True Minute (60 * Minute) ([''a.example''], None) 1000000000000
          [FeedStarts 1, FeedEnds (Some (Err ''failed to dial''))] New) = Waits"
    by (simp add: AutoSync_def FullSync_def sendUpdate_def checkStreaming_def listen_deferred_def
        transport_def Lock_def Unlock_def New_def Minute_def Second_def chan_send_def
        chan_recv_def Let_def)
  have b: "snd (AutoSync True Minute (60 * Minute) ([''a.example''], None) 1000000000000
          [FeedStarts 1, FeedEnds (Some (Err ''failed to dial'')), CtxDone] New) = Returns None"
    by (simp add: AutoSync_def FullSync_def sendUpdate_def checkStreaming_def listen_deferred_def
        transport_def Lock_def Unlock_def New_def Minute_def Second_def chan_send_def
        chan_recv_def Let_def)
  have c: "snd (AutoSync True Minute (60 * Minute) ([''a.example''], None) 1000000000000
          [FullSyncTick ([], Some (Err ''status 500'')) 1000000000001] New)
        = Returns (Some (Err ''status 500''))"
    by (simp add: AutoSync_def FullSync_def sendUpdate_def
        transport_def Lock_def Unlock_def New_def Minute_def Second_def Let_def)
  have d: "snd (AutoSync False 0 (60 * Minute) ([''a.example''], None) 1000000000000
          [CtxDone] New) = Panics NilDereference"
    by (simp add: AutoSync_def FullSync_def sendUpdate_def
        transport_def Lock_def Unlock_def New_def Minute_def Second_def Let_def)
  show ?thesis
    using AutoSync_loop_feed_error_lost [of ri fi e rest w] a b c d by blast
qed

end
